theory Spec2Isabelle
  imports Main "HOL-Library.Sublist"
begin

section \<open>Python values, exceptions and string operations\<close>

text \<open>
  The module \<open>app/utils/images.py\<close> resolves upload URLs to local paths and deletes
  the files behind them. Its own code is embedded below; what it calls in the Python
  standard library and the operating system (\<open>urlparse\<close>, \<open>Path.resolve\<close>,
  \<open>Path.exists\<close>, \<open>Path.unlink\<close>, the iteration order of a \<open>set\<close>) is an
  environment the functions take as a parameter.

  A Python exception is the left summand of a result; \<open>try: ... except Exception\<close>
  is the case distinction on it.
\<close>

datatype error = ValueError | OSError | RuntimeError

text \<open>
  An element of the input: a \<open>str\<close>, or any other object together with its truth
  value (all that \<open>not url\<close> and \<open>isinstance(url, str)\<close> observe of it).
\<close>

datatype pyval = Str string | NonStr bool

text \<open>
  A character stands for a code point below 256. \<open>str.isspace\<close> on that range:
  tab to carriage return, the four separators 28 to 31, the space, NEL and the
  no-break space.
\<close>

definition isspace :: "char \<Rightarrow> bool" where
  "isspace c = (of_char c \<in> {9, 10, 11, 12, 13, 28, 29, 30, 31, 32, 133, 160 :: nat})"

definition strip :: "string \<Rightarrow> string" where
  "strip s = rev (dropWhile isspace (rev (dropWhile isspace s)))"

definition startswith :: "string \<Rightarrow> string \<Rightarrow> bool" where
  "startswith s pre = (take (length pre) s = pre)"

definition removeprefix :: "string \<Rightarrow> string \<Rightarrow> string" where
  "removeprefix s pre = (if startswith s pre then drop (length pre) s else s)"

definition lstrip_chars :: "string \<Rightarrow> string \<Rightarrow> string" where
  "lstrip_chars s cs = dropWhile (\<lambda>c. c \<in> set cs) s"

definition replace_char :: "char \<Rightarrow> char \<Rightarrow> string \<Rightarrow> string" where
  "replace_char a b s = map (\<lambda>c. if c = a then b else c) s"

definition backslash :: char where
  "backslash = CHR 0x5C"

definition uploads_prefix :: string where
  "uploads_prefix = ''/uploads/''"

section \<open>Paths\<close>

text \<open>
  A \<open>pathlib\<close> path of the POSIX flavour, absolute: the list of its parts below the
  root \<open>/\<close>. Parsing a string splits it at \<open>/\<close> and drops empty and \<open>.\<close> parts;
  \<open>..\<close> parts are kept, only \<open>resolve\<close> removes them.
\<close>

type_synonym path = "string list"

fun split_on :: "char \<Rightarrow> string \<Rightarrow> string list" where
  "split_on c [] = [[]]"
| "split_on c (x # xs) =
     (if x = c then [] # split_on c xs
      else (case split_on c xs of
              [] \<Rightarrow> [[x]]
            | y # ys \<Rightarrow> (x # y) # ys))"

definition parse_parts :: "string \<Rightarrow> string list" where
  "parse_parts s = filter (\<lambda>part. part \<noteq> [] \<and> part \<noteq> ''.'') (split_on CHR ''/'' s)"

text \<open>
  \<open>p / s\<close>: a right operand that starts with \<open>/\<close> is absolute and replaces the left
  one, any other is appended.
\<close>

definition truediv :: "path \<Rightarrow> string \<Rightarrow> path" where
  "truediv p s = (if startswith s ''/'' then parse_parts s else p @ parse_parts s)"

text \<open>\<open>str(p)\<close>.\<close>

fun join_parts :: "string list \<Rightarrow> string" where
  "join_parts [] = []"
| "join_parts [x] = x"
| "join_parts (x # y # ys) = x @ ''/'' @ join_parts (y # ys)"

definition str_path :: "path \<Rightarrow> string" where
  "str_path p = ''/'' @ join_parts p"

text \<open>
  \<open>a.relative_to(b)\<close> raises \<open>ValueError\<close> unless the parts of \<open>b\<close> are the first
  parts of \<open>a\<close>.
\<close>

definition relative_to :: "path \<Rightarrow> path \<Rightarrow> error + path" where
  "relative_to a b = (if prefix b a then Inr (drop (length b) a) else Inl ValueError)"

section \<open>The environment\<close>

text \<open>
  \<open>UPLOADS_DIR\<close> is the module constant. \<open>urlparse_path u\<close> is \<open>urlparse(u).path\<close>,
  or the exception \<open>urlparse\<close> raises. \<open>resolve\<close>, \<open>exists\<close> and \<open>unlink\<close> are the
  methods of \<open>Path\<close> on a filesystem state \<open>'s\<close>; \<open>unlink\<close> is called with
  \<open>missing_ok=True\<close> and returns the state after it. \<open>set_order xs\<close> is the order in
  which Python iterates over the set built from the duplicate-free list \<open>xs\<close>.
\<close>

record 's env =
  UPLOADS_DIR :: path
  urlparse_path :: "string \<Rightarrow> error + string"
  resolve :: "'s \<Rightarrow> path \<Rightarrow> error + path"
  exists :: "'s \<Rightarrow> path \<Rightarrow> error + bool"
  unlink :: "'s \<Rightarrow> path \<Rightarrow> error + 's"
  set_order :: "string list \<Rightarrow> string list"

section \<open>The module\<close>

text \<open>
  \<open>_is_subpath\<close>: \<open>p.resolve().relative_to(parent.resolve())\<close> inside
  \<open>try\<close>; any exception gives \<open>False\<close>.
\<close>

definition is_subpath_body :: "'s env \<Rightarrow> 's \<Rightarrow> path \<Rightarrow> path \<Rightarrow> error + bool" where
  "is_subpath_body env s p parent =
     (case resolve env s p of
        Inl e \<Rightarrow> Inl e
      | Inr rp \<Rightarrow>
          (case resolve env s parent of
             Inl e \<Rightarrow> Inl e
           | Inr rparent \<Rightarrow>
               (case relative_to rp rparent of
                  Inl e \<Rightarrow> Inl e
                | Inr rel \<Rightarrow> Inr True)))"

definition is_subpath :: "'s env \<Rightarrow> 's \<Rightarrow> path \<Rightarrow> path \<Rightarrow> error + bool" where
  "is_subpath env s p parent =
     (case is_subpath_body env s p parent of
        Inl e \<Rightarrow> Inr False
      | Inr b \<Rightarrow> Inr b)"

text \<open>
  \<open>_strip_slashes\<close>: \<open>s.lstrip("/\\")\<close>. Both call sites pass the \<open>str\<close> that
  \<open>removeprefix\<close> returns, so the \<open>isinstance\<close> alternative is never taken.
\<close>

definition strip_slashes :: "string \<Rightarrow> string" where
  "strip_slashes s = lstrip_chars s [CHR ''/'', backslash]"

text \<open>
  The two places of \<open>local_upload_path_from_url\<close> that join the remainder onto
  \<open>UPLOADS_DIR\<close> and return the path if the guard accepts it:
  \<open>relative_path = _strip_slashes(x.removeprefix("/uploads/"))\<close>,
  \<open>p = UPLOADS_DIR / relative_path\<close>,
  \<open>return p if _is_subpath(p, UPLOADS_DIR) else None\<close>.
\<close>

definition guarded_join :: "'s env \<Rightarrow> 's \<Rightarrow> string \<Rightarrow> error + path option" where
  "guarded_join env s x =
     (let relative_path = strip_slashes (removeprefix x uploads_prefix);
          p = truediv (UPLOADS_DIR env) relative_path
      in case is_subpath env s p (UPLOADS_DIR env) of
           Inl e \<Rightarrow> Inl e
         | Inr ok \<Rightarrow> Inr (if ok then Some p else None))"

text \<open>
  The \<open>try\<close> block of the absolute branch. Falling out of the block and the handler
  both reach the final \<open>return None\<close>, so the block yields \<open>None\<close> where the source
  falls through.
\<close>

definition parse_branch :: "'s env \<Rightarrow> 's \<Rightarrow> string \<Rightarrow> error + path option" where
  "parse_branch env s u =
     (case urlparse_path env u of
        Inl e \<Rightarrow> Inl e
      | Inr uu_path \<Rightarrow>
          (let path = replace_char backslash CHR ''/'' uu_path
           in if startswith path uploads_prefix then guarded_join env s path
              else Inr None))"

definition local_upload_path_from_url :: "'s env \<Rightarrow> 's \<Rightarrow> pyval \<Rightarrow> error + path option" where
  "local_upload_path_from_url env s url =
     (case url of
        NonStr truth \<Rightarrow> Inr None
      | Str url_s \<Rightarrow>
          if url_s = [] then Inr None
          else (let u = strip url_s
                in if startswith u uploads_prefix then guarded_join env s u
                   else (case parse_branch env s u of
                           Inl e \<Rightarrow> Inr None
                         | Inr r \<Rightarrow> Inr r)))"

text \<open>
  \<open>delete_local_uploads\<close>. The comprehension keeps the \<open>str\<close> entries whose stripped
  form is not empty; \<open>set\<close> removes duplicates; the loop visits the set in the
  environment's order. The loop carries the filesystem state and the two lists.
\<close>

fun str_entries :: "pyval list \<Rightarrow> string list" where
  "str_entries [] = []"
| "str_entries (Str x # xs) = (if strip x \<noteq> [] then x # str_entries xs else str_entries xs)"
| "str_entries (NonStr t # xs) = str_entries xs"

definition unique_urls :: "'s env \<Rightarrow> pyval list \<Rightarrow> string list" where
  "unique_urls env urls = set_order env (remdups (str_entries urls))"

text \<open>One pass of the loop body, from the state and the two lists before it.\<close>

definition process_url ::
  "'s env \<Rightarrow> string \<Rightarrow> 's \<times> string list \<times> string list \<Rightarrow> error + ('s \<times> string list \<times> string list)" where
  "process_url env u st =
     (case st of (s, removed, candidates) \<Rightarrow>
        (case local_upload_path_from_url env s (Str u) of
           Inl e \<Rightarrow> Inl e
         | Inr None \<Rightarrow> Inr (s, removed, candidates)
         | Inr (Some p) \<Rightarrow>
             (let candidates' = candidates @ [str_path p]
              in case exists env s p of
                   Inl e \<Rightarrow> Inr (s, removed, candidates')
                 | Inr False \<Rightarrow> Inr (s, removed, candidates')
                 | Inr True \<Rightarrow>
                     (case unlink env s p of
                        Inl e \<Rightarrow> Inr (s, removed, candidates')
                      | Inr s' \<Rightarrow> Inr (s', removed @ [str_path p], candidates')))))"

fun delete_loop ::
  "'s env \<Rightarrow> string list \<Rightarrow> 's \<times> string list \<times> string list \<Rightarrow> error + ('s \<times> string list \<times> string list)" where
  "delete_loop env [] st = Inr st"
| "delete_loop env (u # us) st =
     (case process_url env u st of
        Inl e \<Rightarrow> Inl e
      | Inr st' \<Rightarrow> delete_loop env us st')"

text \<open>
  The result: the filesystem after the call, \<open>removed\<close> and \<open>candidates\<close>.
\<close>

definition delete_local_uploads ::
  "'s env \<Rightarrow> 's \<Rightarrow> pyval list \<Rightarrow> error + ('s \<times> string list \<times> string list)" where
  "delete_local_uploads env s urls = delete_loop env (unique_urls env urls) (s, [], [])"

section \<open>Containment and the reach of a batch\<close>

text \<open>
  The guard's meaning: both canonical forms exist and the canonical root is a prefix of
  (equal to or an ancestor of) the canonical path.
\<close>

definition contained :: "'s env \<Rightarrow> 's \<Rightarrow> path \<Rightarrow> bool" where
  "contained env s p =
     (case resolve env s p of
        Inl e \<Rightarrow> False
      | Inr cp \<Rightarrow>
          (case resolve env s (UPLOADS_DIR env) of
             Inl e \<Rightarrow> False
           | Inr cr \<Rightarrow> prefix cr cp))"

text \<open>The path both branches build from the text \<open>x\<close> that starts with the prefix.\<close>

definition joined_candidate :: "'s env \<Rightarrow> string \<Rightarrow> path" where
  "joined_candidate env x =
     truediv (UPLOADS_DIR env) (strip_slashes (removeprefix x uploads_prefix))"

text \<open>
  \<open>guarded_unlinks env s s'\<close>: the filesystem \<open>s'\<close> is reached from \<open>s\<close> by unlinking,
  one after the other, paths that exist and are contained at the moment they are
  unlinked.
\<close>

inductive guarded_unlinks :: "'s env \<Rightarrow> 's \<Rightarrow> 's \<Rightarrow> bool" for env :: "'s env" where
  guarded_none: "guarded_unlinks env s s"
| guarded_step:
    "contained env s p \<Longrightarrow> exists env s p = Inr True \<Longrightarrow> unlink env s p = Inr s'
      \<Longrightarrow> guarded_unlinks env s' s'' \<Longrightarrow> guarded_unlinks env s s''"

section \<open>A filesystem without symbolic links\<close>

text \<open>
  A concrete environment on which the functions are run: regular files and
  directories, no symbolic links, so that \<open>resolve\<close> removes \<open>..\<close> parts lexically
  (the parent of the root is the root). A path with a NUL character makes \<open>resolve\<close>
  and \<open>unlink\<close> raise \<open>ValueError\<close> and \<open>exists\<close> return \<open>False\<close>; unlinking a
  directory raises \<open>OSError\<close>; unlinking a missing file is not an error.
\<close>

record fsstate =
  files :: "path list"
  dirs :: "path list"

fun collapse :: "path \<Rightarrow> path \<Rightarrow> path" where
  "collapse acc [] = rev acc"
| "collapse acc (x # xs) =
     (if x = ''..'' then collapse (tl acc) xs else collapse (x # acc) xs)"

definition has_nul :: "path \<Rightarrow> bool" where
  "has_nul p = (\<exists>part \<in> set p. CHR 0x00 \<in> set part)"

definition plain_resolve :: "fsstate \<Rightarrow> path \<Rightarrow> error + path" where
  "plain_resolve s p = (if has_nul p then Inl ValueError else Inr (collapse [] p))"

definition plain_exists :: "fsstate \<Rightarrow> path \<Rightarrow> error + bool" where
  "plain_exists s p =
     (if has_nul p then Inr False
      else Inr (collapse [] p \<in> set (files s) \<or> collapse [] p \<in> set (dirs s)))"

definition plain_unlink :: "fsstate \<Rightarrow> path \<Rightarrow> error + fsstate" where
  "plain_unlink s p =
     (if has_nul p then Inl ValueError
      else if collapse [] p \<in> set (dirs s) then Inl OSError
      else Inr (s\<lparr>files := removeAll (collapse [] p) (files s)\<rparr>))"

text \<open>
  The path component as \<open>urlsplit\<close> finds it: a scheme up to the first colon, a
  network location after \<open>//\<close>, the path up to the first \<open>?\<close> or \<open>#\<close>. A bracket
  without its partner in the network location raises \<open>ValueError\<close>.
\<close>

definition scheme_char :: "char \<Rightarrow> bool" where
  "scheme_char c = (c \<in> set ''abcdefghijklmnopqrstuvwxyzABCDEFGHIJKLMNOPQRSTUVWXYZ0123456789+-.'')"

definition alpha_char :: "char \<Rightarrow> bool" where
  "alpha_char c = (c \<in> set ''abcdefghijklmnopqrstuvwxyzABCDEFGHIJKLMNOPQRSTUVWXYZ'')"

definition after_scheme :: "string \<Rightarrow> string" where
  "after_scheme u =
     (let pre = takeWhile (\<lambda>c. c \<noteq> CHR '':'') u
      in if pre \<noteq> [] \<and> length pre < length u \<and> alpha_char (hd pre) \<and> list_all scheme_char pre
         then drop (Suc (length pre)) u else u)"

definition plain_urlpath :: "string \<Rightarrow> error + string" where
  "plain_urlpath u =
     (let r = after_scheme u;
          stop = (\<lambda>c. c = CHR ''/'' \<or> c = CHR ''?'' \<or> c = CHR ''#'');
          netloc = (if startswith r ''//'' then takeWhile (\<lambda>c. \<not> stop c) (drop 2 r) else []);
          r' = (if startswith r ''//'' then dropWhile (\<lambda>c. \<not> stop c) (drop 2 r) else r)
      in if (CHR ''['' \<in> set netloc) \<noteq> (CHR '']'' \<in> set netloc) then Inl ValueError
         else Inr (takeWhile (\<lambda>c. c \<noteq> CHR ''?'' \<and> c \<noteq> CHR ''#'') r'))"

definition plain_env :: "path \<Rightarrow> fsstate env" where
  "plain_env root =
     \<lparr>UPLOADS_DIR = root, urlparse_path = plain_urlpath, resolve = plain_resolve,
      exists = plain_exists, unlink = plain_unlink, set_order = (\<lambda>xs. xs)\<rparr>"

text \<open>The root and two states used in the examples.\<close>

definition srv_root :: path where
  "srv_root = [''srv'', ''data'', ''uploads'']"

definition fs_two :: fsstate where
  "fs_two = \<lparr>files = [[''srv'', ''data'', ''uploads'', ''a.jpg''],
                      [''srv'', ''data'', ''uploads'', ''b.png''],
                      [''srv'', ''data'', ''secret.txt'']],
             dirs = [[], [''srv''], [''srv'', ''data''], [''srv'', ''data'', ''uploads'']]\<rparr>"

text \<open>
  Letter case, for stating that the prefix test is case-sensitive: \<open>case_variant v w\<close>
  holds when \<open>v\<close> and \<open>w\<close> differ, but only in the case of ASCII letters.
\<close>

definition ascii_lower :: "char \<Rightarrow> char" where
  "ascii_lower c =
     (if (65::nat) \<le> of_char c \<and> of_char c \<le> (90::nat) then char_of (of_char c + (32::nat))
      else c)"

definition case_variant :: "string \<Rightarrow> string \<Rightarrow> bool" where
  "case_variant v w = (map ascii_lower v = map ascii_lower w \<and> v \<noteq> w)"

section \<open>Assumptions on the environment\<close>

text \<open>
  The iteration order of a set is some enumeration of it: a duplicate-free list comes
  back duplicate-free with the same elements.
\<close>

definition order_ok :: "'s env \<Rightarrow> bool" where
  "order_ok env =
     (\<forall>xs. distinct xs \<longrightarrow> distinct (set_order env xs) \<and> set (set_order env xs) = set xs)"

text \<open>
  Unlinking a file does not change how paths canonicalise (true when no symbolic link is
  among the files unlinked).
\<close>

definition resolve_stable :: "'s env \<Rightarrow> bool" where
  "resolve_stable env = (\<forall>s p s'. unlink env s p = Inr s' \<longrightarrow> resolve env s' = resolve env s)"

text \<open>What one URL contributes to \<open>candidates\<close>, resolved in the filesystem \<open>s\<close>.\<close>

definition candidate_of :: "'s env \<Rightarrow> 's \<Rightarrow> string \<Rightarrow> string list" where
  "candidate_of env s u =
     (case local_upload_path_from_url env s (Str u) of
        Inl e \<Rightarrow> []
      | Inr None \<Rightarrow> []
      | Inr (Some p) \<Rightarrow> [str_path p])"

text \<open>
  What \<open>unlink\<close> does to \<open>exists\<close>, on a filesystem nobody else changes: the path
  unlinked is gone; no path comes into existence; and a path whose unlink fails keeps
  failing (or is gone) after other files were unlinked.
\<close>

definition unlink_removes :: "'s env \<Rightarrow> bool" where
  "unlink_removes env = (\<forall>s p s'. unlink env s p = Inr s' \<longrightarrow> exists env s' p \<noteq> Inr True)"

definition unlink_creates_nothing :: "'s env \<Rightarrow> bool" where
  "unlink_creates_nothing env =
     (\<forall>s q s' p. unlink env s q = Inr s' \<longrightarrow> exists env s p \<noteq> Inr True
        \<longrightarrow> exists env s' p \<noteq> Inr True)"

definition unlink_failure_persists :: "'s env \<Rightarrow> bool" where
  "unlink_failure_persists env =
     (\<forall>s q s' p. unlink env s q = Inr s' \<longrightarrow> (\<exists>e. unlink env s p = Inl e)
        \<longrightarrow> (\<exists>e. unlink env s' p = Inl e) \<or> exists env s' p \<noteq> Inr True)"

text \<open>
  \<open>deletable env s p\<close>: the loop body would remove \<open>p\<close> in the filesystem \<open>s\<close>.
\<close>

definition deletable :: "'s env \<Rightarrow> 's \<Rightarrow> path \<Rightarrow> bool" where
  "deletable env s p =
     (exists env s p = Inr True \<and> (case unlink env s p of Inl e \<Rightarrow> False | Inr s' \<Rightarrow> True))"

section \<open>A filesystem with symbolic links\<close>

text \<open>
  A second concrete environment: regular files, directories, and symbolic links with
  absolute targets. \<open>resolve\<close> is \<open>realpath\<close> in its non-strict form: it goes through
  the parts from the root, a \<open>..\<close> part drops the last part reached, a part that is a
  symbolic link is replaced by its target, and parts that do not exist are kept as they
  are. \<open>exists\<close> follows the path as the kernel does: every part but the last must be a
  directory or a link to one, and the last part is followed when it is a link.
  \<open>unlink\<close> follows the links of the parent only and removes the entry named by the last
  part: a symbolic link is removed itself, not its target. At most \<open>link_depth\<close> links
  are followed.
\<close>

record linkfs =
  reg_files :: "path list"
  directories :: "path list"
  symlinks :: "(path \<times> path) list"

definition link_depth :: nat where
  "link_depth = 40"

fun realpath :: "nat \<Rightarrow> (path \<times> path) list \<Rightarrow> path \<Rightarrow> path \<Rightarrow> error + path" where
  "realpath n ls acc [] = Inr acc"
| "realpath n ls acc (part # rest) =
     (if part = ''..'' then realpath n ls (butlast acc) rest
      else (case map_of ls (acc @ [part]) of
              None \<Rightarrow> realpath n ls (acc @ [part]) rest
            | Some target \<Rightarrow>
                (case n of
                   0 \<Rightarrow> Inl RuntimeError
                 | Suc m \<Rightarrow> realpath m ls [] (target @ rest))))"

datatype found = Found path | Missing | Broken

fun lookup :: "nat \<Rightarrow> linkfs \<Rightarrow> path \<Rightarrow> path \<Rightarrow> found" where
  "lookup n s cur [] =
     (if cur \<in> set (directories s) \<or> cur \<in> set (reg_files s) then Found cur else Missing)"
| "lookup n s cur (part # rest) =
     (if cur \<in> set (reg_files s) then Broken
      else if cur \<notin> set (directories s) then Missing
      else if part = ''..'' then lookup n s (butlast cur) rest
      else (case map_of (symlinks s) (cur @ [part]) of
              None \<Rightarrow> lookup n s (cur @ [part]) rest
            | Some target \<Rightarrow>
                (case n of
                   0 \<Rightarrow> Broken
                 | Suc m \<Rightarrow> lookup m s [] (target @ rest))))"

definition link_resolve :: "linkfs \<Rightarrow> path \<Rightarrow> error + path" where
  "link_resolve s p =
     (if has_nul p then Inl ValueError else realpath link_depth (symlinks s) [] p)"

definition link_exists :: "linkfs \<Rightarrow> path \<Rightarrow> error + bool" where
  "link_exists s p =
     (if has_nul p then Inr False
      else (case lookup link_depth s [] p of
              Found c \<Rightarrow> Inr True
            | Missing \<Rightarrow> Inr False
            | Broken \<Rightarrow> Inr False))"

definition remove_entry :: "linkfs \<Rightarrow> path \<Rightarrow> error + linkfs" where
  "remove_entry s e =
     (if map_of (symlinks s) e \<noteq> None
      then Inr (s\<lparr>symlinks := filter (\<lambda>kv. fst kv \<noteq> e) (symlinks s)\<rparr>)
      else if e \<in> set (directories s) then Inl OSError
      else Inr (s\<lparr>reg_files := removeAll e (reg_files s)\<rparr>))"

definition link_unlink :: "linkfs \<Rightarrow> path \<Rightarrow> error + linkfs" where
  "link_unlink s p =
     (if has_nul p then Inl ValueError
      else if p = [] \<or> last p = ''..'' then Inl OSError
      else (case lookup link_depth s [] (butlast p) of
              Missing \<Rightarrow> Inr s
            | Broken \<Rightarrow> Inl OSError
            | Found d \<Rightarrow>
                if d \<in> set (reg_files s) then Inl OSError
                else remove_entry s (d @ [last p])))"

definition link_env :: "path \<Rightarrow> linkfs env" where
  "link_env root =
     \<lparr>UPLOADS_DIR = root, urlparse_path = plain_urlpath, resolve = link_resolve,
      exists = link_exists, unlink = link_unlink, set_order = (\<lambda>xs. xs)\<rparr>"

text \<open>
  Two states: one with a link next to the uploads directory that points to a file in
  it, one with a link in the uploads directory that points two levels further down.
\<close>

definition fs_link :: linkfs where
  "fs_link = \<lparr>reg_files = [[''srv'', ''data'', ''uploads'', ''a.jpg'']],
              directories = [[], [''srv''], [''srv'', ''data''], [''srv'', ''data'', ''uploads'']],
              symlinks = [([''srv'', ''data'', ''link''], [''srv'', ''data'', ''uploads'', ''a.jpg''])]\<rparr>"

definition fs_deep :: linkfs where
  "fs_deep = \<lparr>reg_files = [],
              directories = [[], [''srv''], [''srv'', ''data''], [''srv'', ''data'', ''uploads''],
                             [''srv'', ''data'', ''uploads'', ''sub''],
                             [''srv'', ''data'', ''uploads'', ''sub'', ''deep'']],
              symlinks = [([''srv'', ''data'', ''uploads'', ''L''],
                           [''srv'', ''data'', ''uploads'', ''sub'', ''deep''])]\<rparr>"

section \<open>Unlinking and canonical forms\<close>

text \<open>
  Unlinking a path changes the existence only of paths with the same canonical form (true
  when no symbolic link is among the files unlinked).
\<close>

definition unlink_canonical :: "'s env \<Rightarrow> bool" where
  "unlink_canonical env =
     (\<forall>s p s' q. unlink env s p = Inr s' \<longrightarrow> resolve env s q \<noteq> resolve env s p
        \<longrightarrow> exists env s' q = exists env s q)"

section \<open>Distinct targets\<close>



section \<open>Facts about the operations\<close>

lemma is_subpath_contained: "is_subpath env s p (UPLOADS_DIR env) = Inr (contained env s p)"
  by (simp add: is_subpath_def is_subpath_body_def contained_def relative_to_def
      split: sum.splits)

lemma guarded_join_eq:
  "guarded_join env s x =
     Inr (if contained env s (joined_candidate env x) then Some (joined_candidate env x) else None)"
  by (simp add: guarded_join_def joined_candidate_def is_subpath_contained Let_def)

lemma parse_branch_cases:
  "(\<exists>e. parse_branch env s u = Inl e) \<or> parse_branch env s u = Inr None
    \<or> (\<exists>x. contained env s (joined_candidate env x)
            \<and> parse_branch env s u = Inr (Some (joined_candidate env x)))"
  by (auto simp: parse_branch_def guarded_join_eq Let_def split: sum.splits)

lemma resolver_total: "\<exists>r. local_upload_path_from_url env s url = Inr r"
  by (cases url)
     (auto simp: local_upload_path_from_url_def guarded_join_eq Let_def split: sum.splits)

lemma resolver_some_contained:
  assumes "local_upload_path_from_url env s url = Inr (Some p)"
  shows "contained env s p"
proof (cases url)
  case (NonStr t)
  with assms show ?thesis by (simp add: local_upload_path_from_url_def)
next
  case (Str v)
  show ?thesis
  proof (cases "startswith (strip v) uploads_prefix")
    case True
    with assms Str show ?thesis
      by (auto simp: local_upload_path_from_url_def guarded_join_eq Let_def split: if_splits)
  next
    case False
    with assms Str have "parse_branch env s (strip v) = Inr (Some p)"
      by (auto simp: local_upload_path_from_url_def Let_def split: if_splits sum.splits)
    with parse_branch_cases [of env s "strip v"] show ?thesis by auto
  qed
qed

lemma process_url_total: "\<exists>st'. process_url env u (s, r, c) = Inr st'"
proof -
  obtain res where "local_upload_path_from_url env s (Str u) = Inr res"
    using resolver_total [of env s "Str u"] by blast
  then show ?thesis
    by (simp add: process_url_def Let_def split: option.splits sum.splits bool.splits)
qed

lemma delete_loop_total: "\<exists>st'. delete_loop env us st = Inr st'"
proof (induction us arbitrary: st)
  case Nil
  show ?case by (intro exI) (rule delete_loop.simps(1))
next
  case (Cons u us)
  obtain s r c where st: "st = (s, r, c)" by (metis prod_cases3)
  obtain st1 where "process_url env u st = Inr st1"
    using process_url_total [of env u s r c] st by blast
  with Cons.IH [of st1] show ?case by simp
qed

lemma process_url_subset:
  assumes "process_url env u (s, r, c) = Inr (s', r', c')" and "set r \<subseteq> set c"
  shows "set r' \<subseteq> set c'"
  using assms
  by (auto simp: process_url_def Let_def split: option.splits sum.splits bool.splits)

lemma delete_loop_subset:
  assumes "delete_loop env us (s, r, c) = Inr (s', r', c')" and "set r \<subseteq> set c"
  shows "set r' \<subseteq> set c'"
  using assms
proof (induction us arbitrary: s r c)
  case Nil
  then show ?case by simp
next
  case (Cons u us)
  from Cons.prems(1) obtain s1 r1 c1 where
    step: "process_url env u (s, r, c) = Inr (s1, r1, c1)"
    and rest: "delete_loop env us (s1, r1, c1) = Inr (s', r', c')"
    by (auto split: sum.splits)
  from process_url_subset [OF step Cons.prems(2)] have "set r1 \<subseteq> set c1" .
  with Cons.IH [OF rest] show ?case .
qed

lemma guarded_unlinks_trans:
  "guarded_unlinks env a b \<Longrightarrow> guarded_unlinks env b c \<Longrightarrow> guarded_unlinks env a c"
  by (induction rule: guarded_unlinks.induct) (auto intro: guarded_unlinks.intros)

lemma process_url_guarded:
  assumes "process_url env u (s, r, c) = Inr (s', r', c')"
  shows "guarded_unlinks env s s'"
proof (cases "local_upload_path_from_url env s (Str u)")
  case (Inl e)
  with assms show ?thesis by (simp add: process_url_def)
next
  case (Inr res)
  show ?thesis
  proof (cases res)
    case None
    with assms Inr show ?thesis by (simp add: process_url_def guarded_none)
  next
    case (Some p)
    with Inr have "contained env s p" by (simp add: resolver_some_contained)
    with assms Inr Some show ?thesis
      by (auto simp: process_url_def Let_def split: sum.splits bool.splits
               intro: guarded_unlinks.intros)
  qed
qed

lemma delete_loop_guarded:
  assumes "delete_loop env us (s, r, c) = Inr (s', r', c')"
  shows "guarded_unlinks env s s'"
  using assms
proof (induction us arbitrary: s r c)
  case Nil
  then show ?case by (simp add: guarded_none)
next
  case (Cons u us)
  from Cons.prems obtain s1 r1 c1 where
    step: "process_url env u (s, r, c) = Inr (s1, r1, c1)"
    and rest: "delete_loop env us (s1, r1, c1) = Inr (s', r', c')"
    by (auto split: sum.splits)
  from process_url_guarded [OF step] Cons.IH [OF rest] show ?case
    by (rule guarded_unlinks_trans)
qed

lemma contained_iff:
  "contained env s p \<longleftrightarrow>
     (\<exists>cp cr. resolve env s p = Inr cp \<and> resolve env s (UPLOADS_DIR env) = Inr cr \<and> prefix cr cp)"
  by (auto simp: contained_def split: sum.splits)

lemma is_subpath_fail_closed:
  "(\<exists>e. resolve env s p = Inl e) \<or> (\<exists>e. resolve env s parent = Inl e)
    \<Longrightarrow> is_subpath env s p parent = Inr False"
  by (auto simp: is_subpath_def is_subpath_body_def split: sum.splits)

lemma resolver_relative_branch:
  assumes "url_s \<noteq> []" and "startswith (strip url_s) uploads_prefix"
  shows "local_upload_path_from_url env s (Str url_s) = guarded_join env s (strip url_s)"
  using assms by (simp add: local_upload_path_from_url_def Let_def)

lemma resolver_parse_branch:
  assumes "url_s \<noteq> []" and "\<not> startswith (strip url_s) uploads_prefix"
  shows "local_upload_path_from_url env s (Str url_s) =
           (case parse_branch env s (strip url_s) of Inl e \<Rightarrow> Inr None | Inr r \<Rightarrow> Inr r)"
  using assms by (simp add: local_upload_path_from_url_def Let_def)

lemma resolver_not_uploads:
  assumes "\<not> startswith (strip url_s) uploads_prefix"
    and "\<And>pth. urlparse_path env (strip url_s) = Inr pth
           \<Longrightarrow> \<not> startswith (replace_char backslash CHR ''/'' pth) uploads_prefix"
  shows "local_upload_path_from_url env s (Str url_s) = Inr None"
proof (cases "url_s = []")
  case True
  then show ?thesis by (simp add: local_upload_path_from_url_def)
next
  case False
  have "parse_branch env s (strip url_s) = Inr None \<or> (\<exists>e. parse_branch env s (strip url_s) = Inl e)"
    using assms(2) by (auto simp: parse_branch_def Let_def split: sum.splits)
  with resolver_parse_branch [OF False assms(1), of env s] show ?thesis by auto
qed

lemma process_url_absorbs:
  assumes "local_upload_path_from_url env s (Str u) = Inr (Some p)"
    and "(\<exists>e. exists env s p = Inl e) \<or> (exists env s p = Inr True \<and> (\<exists>e. unlink env s p = Inl e))"
  shows "process_url env u (s, r, c) = Inr (s, r, c @ [str_path p])"
  using assms by (auto simp: process_url_def Let_def)

lemma case_variant_not_startswith:
  assumes "case_variant v w" and "startswith x v"
  shows "\<not> startswith x w"
proof -
  from assms(1) have len: "length v = length w" and ne: "v \<noteq> w"
    by (auto simp: case_variant_def dest: map_eq_imp_length_eq)
  from assms(2) have "take (length v) x = v" by (simp add: startswith_def)
  with len ne show ?thesis by (simp add: startswith_def)
qed

lemma startswith_append: "startswith (pre @ rest) pre"
  by (simp add: startswith_def)

lemma removeprefix_append: "removeprefix (pre @ rest) pre = rest"
  by (simp add: removeprefix_def startswith_def)

lemma strip_slashes_not_abs: "\<not> startswith (strip_slashes r) ''/''"
proof (cases "strip_slashes r")
  case Nil
  then show ?thesis by (simp add: startswith_def)
next
  case (Cons c cs)
  then have "dropWhile (\<lambda>c. c \<in> set [CHR ''/'', backslash]) r \<noteq> []"
    by (simp add: strip_slashes_def lstrip_chars_def)
  from hd_dropWhile [OF this] Cons have "c \<noteq> CHR ''/''"
    by (simp add: strip_slashes_def lstrip_chars_def)
  with Cons show ?thesis by (simp add: startswith_def)
qed

lemma truediv_strip_slashes: "truediv p (strip_slashes r) = p @ parse_parts (strip_slashes r)"
  by (simp add: truediv_def strip_slashes_not_abs)

lemma joined_candidate_append:
  "joined_candidate env (uploads_prefix @ rest)
     = UPLOADS_DIR env @ parse_parts (strip_slashes rest)"
  by (simp add: joined_candidate_def removeprefix_append truediv_strip_slashes)

lemma strip_Nil: "strip [] = []"
  by (simp add: strip_def)

lemma resolver_relative_form:
  assumes "strip url_s = uploads_prefix @ rest"
  shows "local_upload_path_from_url env s (Str url_s) =
           Inr (if contained env s (UPLOADS_DIR env @ parse_parts (strip_slashes rest))
                then Some (UPLOADS_DIR env @ parse_parts (strip_slashes rest)) else None)"
proof -
  from assms have ne: "url_s \<noteq> []" by (auto simp: strip_Nil uploads_prefix_def)
  from assms have sw: "startswith (strip url_s) uploads_prefix" by (simp add: startswith_append)
  show ?thesis
    by (simp add: resolver_relative_branch [OF ne sw] guarded_join_eq assms
        joined_candidate_append)
qed

lemma collapse_no_dotdot: "''..'' \<notin> set xs \<Longrightarrow> collapse a xs = rev a @ xs"
  by (induction xs arbitrary: a) auto

lemma plain_contained:
  assumes "''..'' \<notin> set root" and "''..'' \<notin> set parts" and "\<not> has_nul (root @ parts)"
  shows "contained (plain_env root) s (root @ parts)"
proof -
  from assms(3) have "\<not> has_nul root" by (auto simp: has_nul_def)
  with assms show ?thesis
    by (simp add: contained_def plain_env_def plain_resolve_def collapse_no_dotdot)
qed

lemma strip_slashes_only_slashes:
  assumes "set t \<subseteq> {CHR ''/'', backslash}"
  shows "strip_slashes t = []"
  using assms by (auto simp: strip_slashes_def lstrip_chars_def)

lemma parse_parts_Nil: "parse_parts [] = []"
  by (simp add: parse_parts_def)

lemma distinct_set_singleton:
  assumes "distinct ys" and "set ys = {x}"
  shows "ys = [x]"
proof (cases ys)
  case Nil
  with assms show ?thesis by simp
next
  case (Cons y zs)
  with assms have "y = x" and "set zs \<subseteq> {x}" and "x \<notin> set zs" by auto
  then have "zs = []" by (cases zs) auto
  with Cons \<open>y = x\<close> show ?thesis by simp
qed

lemma set_order_singleton: "order_ok env \<Longrightarrow> set_order env [x] = [x]"
  by (rule distinct_set_singleton) (simp_all add: order_ok_def)

lemma unique_urls_single:
  assumes "order_ok env" and "strip u \<noteq> []"
  shows "unique_urls env [Str u] = [u]"
  using assms by (simp add: unique_urls_def set_order_singleton)

lemma delete_single:
  assumes "order_ok env" and "strip u \<noteq> []"
  shows "delete_local_uploads env s [Str u] = process_url env u (s, [], [])"
  using process_url_total [of env u s "[]" "[]"]
  by (auto simp: delete_local_uploads_def unique_urls_single [OF assms])

lemma process_url_candidates:
  assumes "process_url env u (s, r, c) = Inr (s', r', c')"
  shows "c' = c @ candidate_of env s u"
  using assms
  by (auto simp: process_url_def candidate_of_def Let_def
           split: sum.splits option.splits bool.splits)

lemma process_url_appends:
  assumes "local_upload_path_from_url env s (Str u) = Inr (Some p)"
  shows "\<exists>s' r'. process_url env u (s, r, c) = Inr (s', r', c @ [str_path p])"
  using assms by (simp add: process_url_def Let_def split: sum.splits bool.splits)

lemma resolver_resolve_cong:
  assumes "resolve env s' = resolve env s"
  shows "local_upload_path_from_url env s' v = local_upload_path_from_url env s v"
proof -
  have g: "guarded_join env s' x = guarded_join env s x" for x
    unfolding guarded_join_def is_subpath_def is_subpath_body_def assms by (rule refl)
  have pb: "parse_branch env s' x = parse_branch env s x" for x
    unfolding parse_branch_def g by (rule refl)
  show ?thesis unfolding local_upload_path_from_url_def g pb by (rule refl)
qed

lemma candidate_of_cong:
  "resolve env s' = resolve env s \<Longrightarrow> candidate_of env s' u = candidate_of env s u"
  using resolver_resolve_cong [of env s' s "Str u"] by (simp add: candidate_of_def)

lemma guarded_unlinks_resolve:
  assumes "resolve_stable env" and "guarded_unlinks env s s'"
  shows "resolve env s' = resolve env s"
  using assms(2)
proof (induction rule: guarded_unlinks.induct)
  case (guarded_none s)
  show ?case by simp
next
  case (guarded_step s p s' s'')
  from assms(1) guarded_step.hyps(3) have "resolve env s' = resolve env s"
    by (auto simp: resolve_stable_def)
  with guarded_step.IH show ?case by simp
qed

lemma delete_loop_candidates:
  assumes "resolve_stable env" and "delete_loop env us (s, r, c) = Inr (s', r', c')"
  shows "c' = c @ concat (map (candidate_of env s) us)"
  using assms(2)
proof (induction us arbitrary: s r c)
  case Nil
  then show ?case by simp
next
  case (Cons u us)
  from Cons.prems obtain s1 r1 c1 where
    step: "process_url env u (s, r, c) = Inr (s1, r1, c1)"
    and rest: "delete_loop env us (s1, r1, c1) = Inr (s', r', c')"
    by (auto split: sum.splits)
  from guarded_unlinks_resolve [OF assms(1) process_url_guarded [OF step]]
  have same: "resolve env s1 = resolve env s" .
  have "map (candidate_of env s1) us = map (candidate_of env s) us"
    by (simp add: candidate_of_cong [OF same])
  with Cons.IH [OF rest] process_url_candidates [OF step] show ?case by simp
qed

lemma plain_order_ok: "order_ok (plain_env root)"
  by (simp add: order_ok_def plain_env_def)

lemma plain_resolve_stable: "resolve_stable (plain_env root)"
  by (auto simp: resolve_stable_def plain_env_def plain_resolve_def)

lemma deletable_iff:
  "deletable env s p \<longleftrightarrow> exists env s p = Inr True \<and> (\<exists>s'. unlink env s p = Inr s')"
  by (auto simp: deletable_def split: sum.splits)

lemma not_deletable_unlink:
  assumes "unlink_creates_nothing env" and "unlink_failure_persists env"
    and "unlink env s q = Inr s'" and "\<not> deletable env s p"
  shows "\<not> deletable env s' p"
proof (cases "exists env s p = Inr True")
  case False
  with assms(1,3) have "exists env s' p \<noteq> Inr True"
    unfolding unlink_creates_nothing_def by blast
  then show ?thesis by (simp add: deletable_iff)
next
  case True
  with assms(4) have "\<exists>e. unlink env s p = Inl e"
    by (cases "unlink env s p") (auto simp: deletable_iff)
  with assms(2,3) have "(\<exists>e. unlink env s' p = Inl e) \<or> exists env s' p \<noteq> Inr True"
    unfolding unlink_failure_persists_def by blast
  then show ?thesis by (auto simp: deletable_iff)
qed

lemma not_deletable_guarded:
  assumes "unlink_creates_nothing env" and "unlink_failure_persists env"
    and "guarded_unlinks env s s'" and "\<not> deletable env s p"
  shows "\<not> deletable env s' p"
  using assms(3,4)
proof (induction rule: guarded_unlinks.induct)
  case (guarded_none s)
  then show ?case .
next
  case (guarded_step s q s' s'')
  from not_deletable_unlink [OF assms(1,2) guarded_step.hyps(3) guarded_step.prems]
  show ?case by (rule guarded_step.IH)
qed

lemma process_url_not_deletable:
  assumes "unlink_removes env"
    and "process_url env u (s, r, c) = Inr (s', r', c')"
    and "local_upload_path_from_url env s (Str u) = Inr (Some p)"
  shows "\<not> deletable env s' p"
proof (cases "deletable env s p")
  case True
  then obtain s1 where e: "exists env s p = Inr True" and u: "unlink env s p = Inr s1"
    by (auto simp: deletable_iff)
  with assms(2,3) have "s' = s1" by (simp add: process_url_def)
  with assms(1) u have "exists env s' p \<noteq> Inr True"
    unfolding unlink_removes_def by blast
  then show ?thesis by (simp add: deletable_iff)
next
  case False
  with assms(2,3) have "s' = s"
    by (auto simp: process_url_def deletable_iff Let_def split: sum.splits bool.splits)
  with False show ?thesis by simp
qed

lemma delete_loop_leaves_nothing_deletable:
  assumes "resolve_stable env" and "unlink_removes env"
    and "unlink_creates_nothing env" and "unlink_failure_persists env"
    and "delete_loop env us (s, r, c) = Inr (s', r', c')"
    and "u \<in> set us" and "local_upload_path_from_url env s (Str u) = Inr (Some p)"
  shows "\<not> deletable env s' p"
  using assms(5,6,7)
proof (induction us arbitrary: s r c)
  case Nil
  then show ?case by simp
next
  case (Cons v vs)
  from Cons.prems(1) obtain s1 r1 c1 where
    step: "process_url env v (s, r, c) = Inr (s1, r1, c1)"
    and rest: "delete_loop env vs (s1, r1, c1) = Inr (s', r', c')"
    by (auto split: sum.splits)
  from guarded_unlinks_resolve [OF assms(1) process_url_guarded [OF step]]
  have same: "resolve env s1 = resolve env s" .
  show ?case
  proof (cases "u \<in> set vs")
    case True
    from Cons.prems(3) have "local_upload_path_from_url env s1 (Str u) = Inr (Some p)"
      by (simp add: resolver_resolve_cong [OF same])
    from Cons.IH [OF rest True this] show ?thesis .
  next
    case False
    with Cons.prems(2) have "u = v" by simp
    with Cons.prems(3) step have "\<not> deletable env s1 p"
      by (intro process_url_not_deletable [OF assms(2)]) auto
    from not_deletable_guarded [OF assms(3,4) delete_loop_guarded [OF rest] this]
    show ?thesis .
  qed
qed

lemma process_url_idle:
  assumes "\<And>p. local_upload_path_from_url env s (Str u) = Inr (Some p) \<Longrightarrow> \<not> deletable env s p"
  shows "process_url env u (s, r, c) = Inr (s, r, c @ candidate_of env s u)"
proof -
  obtain res where res: "local_upload_path_from_url env s (Str u) = Inr res"
    using resolver_total [of env s "Str u"] by blast
  show ?thesis
  proof (cases res)
    case None
    with res show ?thesis by (simp add: process_url_def candidate_of_def)
  next
    case (Some p)
    with res assms have "\<not> deletable env s p" by simp
    with res Some show ?thesis
      by (auto simp: process_url_def candidate_of_def deletable_iff Let_def
               split: sum.splits bool.splits)
  qed
qed

lemma delete_loop_idle:
  assumes "\<And>u p. u \<in> set us \<Longrightarrow> local_upload_path_from_url env s (Str u) = Inr (Some p)
             \<Longrightarrow> \<not> deletable env s p"
  shows "delete_loop env us (s, r, c) = Inr (s, r, c @ concat (map (candidate_of env s) us))"
  using assms
proof (induction us arbitrary: c)
  case Nil
  show ?case by simp
next
  case (Cons v vs)
  have head: "\<not> deletable env s p"
    if "local_upload_path_from_url env s (Str v) = Inr (Some p)" for p
    using Cons.prems [of v p] that by simp
  have tail: "\<not> deletable env s p"
    if "u \<in> set vs" and "local_upload_path_from_url env s (Str u) = Inr (Some p)" for u p
    using Cons.prems [of u p] that by simp
  have "process_url env v (s, r, c) = Inr (s, r, c @ candidate_of env s v)"
    by (rule process_url_idle) (rule head)
  moreover have "delete_loop env vs (s, r, c @ candidate_of env s v)
      = Inr (s, r, (c @ candidate_of env s v) @ concat (map (candidate_of env s) vs))"
    by (rule Cons.IH) (rule tail)
  ultimately show ?case by simp
qed

lemma plain_unlink_removes: "unlink_removes (plain_env root)"
  by (auto simp: unlink_removes_def plain_env_def plain_unlink_def plain_exists_def
           split: if_splits)

lemma plain_unlink_creates_nothing: "unlink_creates_nothing (plain_env root)"
  by (auto simp: unlink_creates_nothing_def plain_env_def plain_unlink_def plain_exists_def
           split: if_splits)

lemma plain_unlink_failure_persists: "unlink_failure_persists (plain_env root)"
  by (auto simp: unlink_failure_persists_def plain_env_def plain_unlink_def plain_exists_def
           split: if_splits)

lemma contained_resolve_eq:
  "resolve env s q = resolve env s p \<Longrightarrow> contained env s q = contained env s p"
  by (simp add: contained_def)

lemma contained_resolve_cong:
  assumes "resolve env s' = resolve env s"
  shows "contained env s' q = contained env s q"
  unfolding contained_def assms by (rule refl)

lemma guarded_unlinks_outside:
  assumes "resolve_stable env" and "unlink_canonical env"
    and "guarded_unlinks env s s'" and "\<not> contained env s q"
  shows "exists env s' q = exists env s q"
  using assms(3,4)
proof (induction rule: guarded_unlinks.induct)
  case (guarded_none s)
  show ?case by (rule refl)
next
  case (guarded_step s p s' s'')
  have "resolve env s q \<noteq> resolve env s p"
  proof
    assume "resolve env s q = resolve env s p"
    then have "contained env s q = contained env s p" by (rule contained_resolve_eq)
    with guarded_step.hyps(1) guarded_step.prems show False by blast
  qed
  with assms(2) guarded_step.hyps(3) have keep: "exists env s' q = exists env s q"
    unfolding unlink_canonical_def by blast
  from assms(1) guarded_step.hyps(3) have "resolve env s' = resolve env s"
    unfolding resolve_stable_def by blast
  then have "contained env s' q = contained env s q" by (rule contained_resolve_cong)
  with guarded_step.prems have "\<not> contained env s' q" by blast
  then have "exists env s'' q = exists env s' q" by (rule guarded_step.IH)
  then show ?case using keep by (rule trans)
qed

lemma plain_unlink_canonical: "unlink_canonical (plain_env root)"
  by (auto simp: unlink_canonical_def plain_env_def plain_unlink_def plain_exists_def
                 plain_resolve_def split: if_splits)

lemma delete_loop_append:
  "delete_loop env (xs @ ys) st =
     (case delete_loop env xs st of Inl e \<Rightarrow> Inl e | Inr st' \<Rightarrow> delete_loop env ys st')"
  by (induction xs arbitrary: st) (auto split: sum.splits)

lemma process_url_prefix:
  assumes "process_url env u (s, r, c) = Inr (s', r', c')"
  shows "prefix r r' \<and> prefix c c'"
  using assms
  by (auto simp: process_url_def Let_def split: sum.splits option.splits bool.splits)

lemma delete_loop_prefix:
  assumes "delete_loop env us (s, r, c) = Inr (s', r', c')"
  shows "prefix r r' \<and> prefix c c'"
  using assms
proof (induction us arbitrary: s r c)
  case Nil
  then show ?case by simp
next
  case (Cons u us)
  from Cons.prems obtain s1 r1 c1 where
    step: "process_url env u (s, r, c) = Inr (s1, r1, c1)"
    and rest: "delete_loop env us (s1, r1, c1) = Inr (s', r', c')"
    by (auto split: sum.splits)
  from process_url_prefix [OF step] Cons.IH [OF rest] show ?case
    by (auto intro: prefix_order.trans)
qed

lemma delete_loop_failed_pass:
  assumes "unique_urls env urls = us1 @ v # us2"
    and "delete_loop env us1 (s, [], []) = Inr (s1, removed1, candidates1)"
    and "local_upload_path_from_url env s1 (Str v) = Inr (Some q)"
    and "(\<exists>e. exists env s1 q = Inl e)
         \<or> (exists env s1 q = Inr True \<and> (\<exists>e. unlink env s1 q = Inl e))"
  shows "\<exists>s2 removed2 candidates2.
           delete_local_uploads env s urls = Inr (s2, removed2, candidates2)
           \<and> delete_loop env us2 (s1, removed1, candidates1 @ [str_path q])
               = Inr (s2, removed2, candidates2)
           \<and> prefix removed1 removed2
           \<and> prefix (candidates1 @ [str_path q]) candidates2"
proof -
  have pass: "process_url env v (s1, removed1, candidates1)
      = Inr (s1, removed1, candidates1 @ [str_path q])"
    by (rule process_url_absorbs [OF assms(3,4)])
  obtain st where "delete_loop env us2 (s1, removed1, candidates1 @ [str_path q]) = Inr st"
    using delete_loop_total by blast
  then obtain s2 removed2 candidates2 where
    rest: "delete_loop env us2 (s1, removed1, candidates1 @ [str_path q])
             = Inr (s2, removed2, candidates2)"
    by (metis prod_cases3)
  have "delete_local_uploads env s urls = Inr (s2, removed2, candidates2)"
    by (simp add: delete_local_uploads_def assms(1,2) delete_loop_append pass rest)
  with rest delete_loop_prefix [OF rest] show ?thesis by blast
qed




















section \<open>Claims\<close>

subsection \<open>C2: removed is a subset of candidates\<close>

text \<open>
  C2. For every input list, with elements that are strings or not, every element of
  the \<open>removed\<close> list that \<open>delete_local_uploads\<close> returns also occurs in the
  \<open>candidates\<close> list it returns.
\<close>

theorem removed_subset_candidates:
  "delete_local_uploads env s urls = Inr (s', removed, candidates)
    \<Longrightarrow> set removed \<subseteq> set candidates"
  using delete_loop_subset [of env "unique_urls env urls" s "[]" "[]" s' removed candidates]
  by (simp add: delete_local_uploads_def)

theorem removed_subset_candidates_witness:
  "delete_local_uploads (plain_env srv_root) fs_two
     [Str ''/uploads/a.jpg'', NonStr True, Str ''/uploads/missing.jpg'', Str ''/uploads/a.jpg'']
   = Inr (\<lparr>files = [[''srv'', ''data'', ''uploads'', ''b.png''], [''srv'', ''data'', ''secret.txt'']],
            dirs = [[], [''srv''], [''srv'', ''data''], [''srv'', ''data'', ''uploads'']]\<rparr>,
          [''/srv/data/uploads/a.jpg''],
          [''/srv/data/uploads/missing.jpg'', ''/srv/data/uploads/a.jpg''])
   \<and> set [''/srv/data/uploads/a.jpg'']
        \<subseteq> set [''/srv/data/uploads/missing.jpg'', ''/srv/data/uploads/a.jpg'']"
proof -
  have run: "delete_local_uploads (plain_env srv_root) fs_two
     [Str ''/uploads/a.jpg'', NonStr True, Str ''/uploads/missing.jpg'', Str ''/uploads/a.jpg'']
   = Inr (\<lparr>files = [[''srv'', ''data'', ''uploads'', ''b.png''], [''srv'', ''data'', ''secret.txt'']],
            dirs = [[], [''srv''], [''srv'', ''data''], [''srv'', ''data'', ''uploads'']]\<rparr>,
          [''/srv/data/uploads/a.jpg''],
          [''/srv/data/uploads/missing.jpg'', ''/srv/data/uploads/a.jpg''])"
    by code_simp
  show ?thesis by (rule conjI [OF run removed_subset_candidates [OF run]])
qed

subsection \<open>C6: inputs outside the two accepted shapes\<close>

text \<open>
  C6. For every input string whose stripped form does not start with \<open>/uploads/\<close>
  and whose parsed path, with backslashes turned into slashes, does not start with
  \<open>/uploads/\<close> either (which includes the case that parsing fails),
  \<open>local_upload_path_from_url\<close> returns \<open>None\<close>.
\<close>

theorem other_shapes_resolve_to_none:
  assumes "\<not> startswith (strip url_s) uploads_prefix"
    and "\<forall>pth. urlparse_path env (strip url_s) = Inr pth
           \<longrightarrow> \<not> startswith (replace_char backslash CHR ''/'' pth) uploads_prefix"
  shows "local_upload_path_from_url env s (Str url_s) = Inr None"
  using assms by (intro resolver_not_uploads) auto

theorem other_shapes_resolve_to_none_witness:
  "\<not> startswith (strip ''https://external.com/c.jpg'') uploads_prefix
   \<and> urlparse_path (plain_env srv_root) (strip ''https://external.com/c.jpg'') = Inr ''/c.jpg''
   \<and> \<not> startswith (replace_char backslash CHR ''/'' ''/c.jpg'') uploads_prefix
   \<and> local_upload_path_from_url (plain_env srv_root) fs_two (Str ''https://external.com/c.jpg'')
       = Inr None"
proof -
  let ?E = "plain_env srv_root"
  let ?u = "''https://external.com/c.jpg''"
  have h1: "\<not> startswith (strip ?u) uploads_prefix" by code_simp
  have h2: "urlparse_path ?E (strip ?u) = Inr ''/c.jpg''" by code_simp
  have h3: "\<not> startswith (replace_char backslash CHR ''/'' ''/c.jpg'') uploads_prefix"
    by code_simp
  from h2 h3 have h4: "\<forall>pth. urlparse_path ?E (strip ?u) = Inr pth
           \<longrightarrow> \<not> startswith (replace_char backslash CHR ''/'' pth) uploads_prefix"
    by simp
  from other_shapes_resolve_to_none [OF h1 h4, of fs_two] h1 h2 h3 show ?thesis by blast
qed

subsection \<open>C10: the prefix is matched case-sensitively\<close>

text \<open>
  C10. The test for \<open>/uploads/\<close> is case-sensitive in both branches. An input
  whose stripped form starts with a differently-cased spelling of the prefix, and whose
  parsed path does not start with the lower-case prefix, resolves to \<open>None\<close>; so
  does an input of the absolute form whose parsed path starts with a differently-cased
  spelling.
\<close>

theorem prefix_is_case_sensitive:
  "(case_variant v uploads_prefix \<and> startswith (strip url_s) v
     \<and> (\<forall>pth. urlparse_path env (strip url_s) = Inr pth
           \<longrightarrow> \<not> startswith (replace_char backslash CHR ''/'' pth) uploads_prefix)
     \<longrightarrow> local_upload_path_from_url env s (Str url_s) = Inr None)
   \<and> (\<not> startswith (strip url_a) uploads_prefix
       \<and> urlparse_path env (strip url_a) = Inr pth_a
       \<and> case_variant w uploads_prefix
       \<and> startswith (replace_char backslash CHR ''/'' pth_a) w
     \<longrightarrow> local_upload_path_from_url env s (Str url_a) = Inr None)"
proof (intro conjI impI)
  assume a: "case_variant v uploads_prefix \<and> startswith (strip url_s) v
     \<and> (\<forall>pth. urlparse_path env (strip url_s) = Inr pth
           \<longrightarrow> \<not> startswith (replace_char backslash CHR ''/'' pth) uploads_prefix)"
  then have "\<not> startswith (strip url_s) uploads_prefix"
    by (auto dest: case_variant_not_startswith)
  with a show "local_upload_path_from_url env s (Str url_s) = Inr None"
    by (intro resolver_not_uploads) auto
next
  assume a: "\<not> startswith (strip url_a) uploads_prefix
       \<and> urlparse_path env (strip url_a) = Inr pth_a
       \<and> case_variant w uploads_prefix
       \<and> startswith (replace_char backslash CHR ''/'' pth_a) w"
  then have "\<not> startswith (replace_char backslash CHR ''/'' pth_a) uploads_prefix"
    by (auto dest: case_variant_not_startswith)
  with a show "local_upload_path_from_url env s (Str url_a) = Inr None"
    by (intro resolver_not_uploads) auto
qed

theorem prefix_is_case_sensitive_witness:
  "case_variant ''/Uploads/'' uploads_prefix
   \<and> startswith (strip ''/Uploads/a.jpg'') ''/Uploads/''
   \<and> urlparse_path (plain_env srv_root) (strip ''/Uploads/a.jpg'') = Inr ''/Uploads/a.jpg''
   \<and> local_upload_path_from_url (plain_env srv_root) fs_two (Str ''/Uploads/a.jpg'') = Inr None
   \<and> case_variant ''/UPLOADS/'' uploads_prefix
   \<and> urlparse_path (plain_env srv_root) (strip ''http://host/UPLOADS/a.jpg'')
       = Inr ''/UPLOADS/a.jpg''
   \<and> local_upload_path_from_url (plain_env srv_root) fs_two (Str ''http://host/UPLOADS/a.jpg'')
       = Inr None"
proof -
  let ?E = "plain_env srv_root"
  note inst = prefix_is_case_sensitive
    [of "''/Uploads/''" "''/Uploads/a.jpg''" ?E fs_two "''http://host/UPLOADS/a.jpg''"
        "''/UPLOADS/a.jpg''" "''/UPLOADS/''"]
  have h1: "case_variant ''/Uploads/'' uploads_prefix
      \<and> startswith (strip ''/Uploads/a.jpg'') ''/Uploads/''"
    by code_simp
  have h2: "urlparse_path ?E (strip ''/Uploads/a.jpg'') = Inr ''/Uploads/a.jpg''"
    by code_simp
  have h3: "\<not> startswith (replace_char backslash CHR ''/'' ''/Uploads/a.jpg'') uploads_prefix"
    by code_simp
  from h2 h3 have h4: "\<forall>pth. urlparse_path ?E (strip ''/Uploads/a.jpg'') = Inr pth
           \<longrightarrow> \<not> startswith (replace_char backslash CHR ''/'' pth) uploads_prefix"
    by simp
  have h5: "\<not> startswith (strip ''http://host/UPLOADS/a.jpg'') uploads_prefix
      \<and> urlparse_path ?E (strip ''http://host/UPLOADS/a.jpg'') = Inr ''/UPLOADS/a.jpg''
      \<and> case_variant ''/UPLOADS/'' uploads_prefix
      \<and> startswith (replace_char backslash CHR ''/'' ''/UPLOADS/a.jpg'') ''/UPLOADS/''"
    by code_simp
  from inst h1 h2 h4 h5 show ?thesis by blast
qed

subsection \<open>C5: relative URLs resolve below the root\<close>

text \<open>
  C5. For every input whose stripped form is \<open>/uploads/\<close> followed by a remainder,
  the remainder loses its leading slashes and backslashes and is joined onto
  \<open>UPLOADS_DIR\<close>; that path is returned whenever the guard accepts it, that is
  whenever the remainder does not lead out of the root. In particular
  \<open>/uploads/a/b.png\<close> yields the root's parts followed by \<open>a\<close> and \<open>b.png\<close>. On
  a filesystem without symbolic links a remainder without \<open>..\<close> parts (and without
  NUL) is always accepted.
\<close>

theorem relative_url_resolves_below_root:
  "(strip url_s = uploads_prefix @ rest
     \<and> contained env s (truediv (UPLOADS_DIR env) (strip_slashes rest))
     \<longrightarrow> local_upload_path_from_url env s (Str url_s)
          = Inr (Some (truediv (UPLOADS_DIR env) (strip_slashes rest))))
   \<and> (contained env s (UPLOADS_DIR env @ [''a'', ''b.png''])
     \<longrightarrow> local_upload_path_from_url env s (Str ''/uploads/a/b.png'')
          = Inr (Some (UPLOADS_DIR env @ [''a'', ''b.png''])))
   \<and> (strip url_p = uploads_prefix @ rest_p
       \<and> ''..'' \<notin> set root \<and> ''..'' \<notin> set (parse_parts (strip_slashes rest_p))
       \<and> \<not> has_nul (root @ parse_parts (strip_slashes rest_p))
     \<longrightarrow> local_upload_path_from_url (plain_env root) fs (Str url_p)
          = Inr (Some (root @ parse_parts (strip_slashes rest_p))))"
proof (intro conjI impI)
  assume "strip url_s = uploads_prefix @ rest
     \<and> contained env s (truediv (UPLOADS_DIR env) (strip_slashes rest))"
  then show "local_upload_path_from_url env s (Str url_s)
          = Inr (Some (truediv (UPLOADS_DIR env) (strip_slashes rest)))"
    by (simp add: resolver_relative_form truediv_strip_slashes)
next
  have s: "strip ''/uploads/a/b.png'' = uploads_prefix @ ''a/b.png''" by code_simp
  have p: "parse_parts (strip_slashes ''a/b.png'') = [''a'', ''b.png'']" by code_simp
  assume "contained env s (UPLOADS_DIR env @ [''a'', ''b.png''])"
  then show "local_upload_path_from_url env s (Str ''/uploads/a/b.png'')
          = Inr (Some (UPLOADS_DIR env @ [''a'', ''b.png'']))"
    by (simp add: resolver_relative_form [OF s] p)
next
  assume a: "strip url_p = uploads_prefix @ rest_p
       \<and> ''..'' \<notin> set root \<and> ''..'' \<notin> set (parse_parts (strip_slashes rest_p))
       \<and> \<not> has_nul (root @ parse_parts (strip_slashes rest_p))"
  then have "contained (plain_env root) fs (root @ parse_parts (strip_slashes rest_p))"
    by (intro plain_contained) auto
  moreover have "UPLOADS_DIR (plain_env root) = root" by (simp add: plain_env_def)
  ultimately show "local_upload_path_from_url (plain_env root) fs (Str url_p)
          = Inr (Some (root @ parse_parts (strip_slashes rest_p)))"
    using a by (simp add: resolver_relative_form)
qed


theorem relative_url_resolves_below_root_witness:
  "strip ''  /uploads//x/./y.png '' = uploads_prefix @ ''/x/./y.png''
   \<and> contained (plain_env srv_root) fs_two
        (truediv (UPLOADS_DIR (plain_env srv_root)) (strip_slashes ''/x/./y.png''))
   \<and> local_upload_path_from_url (plain_env srv_root) fs_two (Str ''  /uploads//x/./y.png '')
       = Inr (Some [''srv'', ''data'', ''uploads'', ''x'', ''y.png''])
   \<and> contained (plain_env srv_root) fs_two (UPLOADS_DIR (plain_env srv_root) @ [''a'', ''b.png''])
   \<and> local_upload_path_from_url (plain_env srv_root) fs_two (Str ''/uploads/a/b.png'')
       = Inr (Some [''srv'', ''data'', ''uploads'', ''a'', ''b.png''])
   \<and> local_upload_path_from_url (plain_env srv_root) fs_two (Str ''/uploads/c/d.gif'')
       = Inr (Some [''srv'', ''data'', ''uploads'', ''c'', ''d.gif''])"
proof -
  let ?E = "plain_env srv_root"
  note inst = relative_url_resolves_below_root
    [of "''  /uploads//x/./y.png ''" "''/x/./y.png''" ?E fs_two
        "''/uploads/c/d.gif''" "''c/d.gif''" srv_root fs_two]
  have h1: "strip ''  /uploads//x/./y.png '' = uploads_prefix @ ''/x/./y.png''
      \<and> contained ?E fs_two (truediv (UPLOADS_DIR ?E) (strip_slashes ''/x/./y.png''))"
    by code_simp
  have v1: "truediv (UPLOADS_DIR ?E) (strip_slashes ''/x/./y.png'')
      = [''srv'', ''data'', ''uploads'', ''x'', ''y.png'']"
    by code_simp
  have h2: "contained ?E fs_two (UPLOADS_DIR ?E @ [''a'', ''b.png''])"
    by code_simp
  have v2: "UPLOADS_DIR ?E @ [''a'', ''b.png''] = [''srv'', ''data'', ''uploads'', ''a'', ''b.png'']"
    by code_simp
  have h3: "strip ''/uploads/c/d.gif'' = uploads_prefix @ ''c/d.gif''
      \<and> ''..'' \<notin> set srv_root \<and> ''..'' \<notin> set (parse_parts (strip_slashes ''c/d.gif''))
      \<and> \<not> has_nul (srv_root @ parse_parts (strip_slashes ''c/d.gif''))"
    by code_simp
  have v3: "srv_root @ parse_parts (strip_slashes ''c/d.gif'')
      = [''srv'', ''data'', ''uploads'', ''c'', ''d.gif'']"
    by code_simp
  from inst h1 h2 h3 show ?thesis unfolding v1 v2 v3 by blast
qed

subsection \<open>C9: the bare prefix resolves to the root itself\<close>

text \<open>
  C9. For every input whose stripped form is \<open>/uploads/\<close>, alone or followed only by
  slashes and backslashes, the remainder is empty after \<open>_strip_slashes\<close>, the join
  gives \<open>UPLOADS_DIR\<close> itself, and the guard accepts a path equal to the root: where
  the root can be canonicalised, \<open>local_upload_path_from_url\<close> returns
  \<open>UPLOADS_DIR\<close>, and a batch with that input lists the root as its candidate.
\<close>

theorem bare_prefix_resolves_to_root:
  assumes "strip url_s = uploads_prefix @ t" and "set t \<subseteq> {CHR ''/'', backslash}"
    and "resolve env s (UPLOADS_DIR env) = Inr cr"
  shows "local_upload_path_from_url env s (Str url_s) = Inr (Some (UPLOADS_DIR env))
    \<and> (order_ok env \<longrightarrow>
         (\<exists>s' removed. delete_local_uploads env s [Str url_s]
                         = Inr (s', removed, [str_path (UPLOADS_DIR env)])))"
proof -
  from assms(3) have c: "contained env s (UPLOADS_DIR env)" by (simp add: contained_def)
  have r: "local_upload_path_from_url env s (Str url_s) = Inr (Some (UPLOADS_DIR env))"
    by (simp add: resolver_relative_form [OF assms(1)]
        strip_slashes_only_slashes [OF assms(2)] parse_parts_Nil c)
  from assms(1) have ne: "strip url_s \<noteq> []" by (simp add: uploads_prefix_def)
  from process_url_appends [OF r, of "[]" "[]"] r show ?thesis
    by (auto simp: delete_single [OF _ ne])
qed

theorem bare_prefix_resolves_to_root_witness:
  "strip (''/uploads//'' @ [backslash] @ ''/ '') = uploads_prefix @ (''/'' @ [backslash] @ ''/'')
   \<and> set (''/'' @ [backslash] @ ''/'') \<subseteq> {CHR ''/'', backslash}
   \<and> resolve (plain_env srv_root) fs_two (UPLOADS_DIR (plain_env srv_root)) = Inr srv_root
   \<and> local_upload_path_from_url (plain_env srv_root) fs_two (Str (''/uploads//'' @ [backslash] @ ''/ ''))
       = Inr (Some (UPLOADS_DIR (plain_env srv_root)))
   \<and> (\<exists>s' removed. delete_local_uploads (plain_env srv_root) fs_two [Str (''/uploads//'' @ [backslash] @ ''/ '')]
                     = Inr (s', removed, [str_path (UPLOADS_DIR (plain_env srv_root))]))"
proof -
  have h1: "strip (''/uploads//'' @ [backslash] @ ''/ '') = uploads_prefix @ (''/'' @ [backslash] @ ''/'')" by code_simp
  have h2: "set (''/'' @ [backslash] @ ''/'') \<subseteq> {CHR ''/'', backslash}" by code_simp
  have h3: "resolve (plain_env srv_root) fs_two (UPLOADS_DIR (plain_env srv_root)) = Inr srv_root"
    by code_simp
  from bare_prefix_resolves_to_root [OF h1 h2 h3] plain_order_ok [of srv_root] h1 h2 h3
  show ?thesis by blast
qed

subsection \<open>C7: candidates are recorded whether or not the file exists\<close>

text \<open>
  C7. Every pass of the loop whose URL resolves appends the string form of the path to
  \<open>candidates\<close>, whatever \<open>exists\<close> answers. Over a whole batch (where unlinking
  leaves canonicalisation as it is) \<open>candidates\<close> is exactly the string forms of the
  paths the unique URLs resolve to, in iteration order. In particular, for the input
  \<open>["/uploads/missing.jpg"]\<close> with the file absent, \<open>removed\<close> is empty and
  \<open>candidates\<close> is the one path \<open>UPLOADS_DIR/missing.jpg\<close>.
\<close>

theorem candidates_regardless_of_existence:
  "(local_upload_path_from_url env s (Str u) = Inr (Some p) \<longrightarrow>
      (\<exists>s' removed'. process_url env u (s, removed, candidates)
                       = Inr (s', removed', candidates @ [str_path p])))
   \<and> (resolve_stable env \<and> delete_local_uploads env s urls = Inr (s1, removed1, candidates1)
        \<longrightarrow> candidates1 = concat (map (candidate_of env s) (unique_urls env urls)))
   \<and> (order_ok env \<and> contained env s (UPLOADS_DIR env @ [''missing.jpg''])
        \<and> exists env s (UPLOADS_DIR env @ [''missing.jpg'']) = Inr False
        \<longrightarrow> delete_local_uploads env s [Str ''/uploads/missing.jpg'']
             = Inr (s, [], [str_path (UPLOADS_DIR env @ [''missing.jpg''])]))"
proof (intro conjI impI)
  assume "local_upload_path_from_url env s (Str u) = Inr (Some p)"
  then show "\<exists>s' removed'. process_url env u (s, removed, candidates)
                       = Inr (s', removed', candidates @ [str_path p])"
    by (rule process_url_appends)
next
  assume "resolve_stable env \<and> delete_local_uploads env s urls = Inr (s1, removed1, candidates1)"
  then show "candidates1 = concat (map (candidate_of env s) (unique_urls env urls))"
    using delete_loop_candidates [of env "unique_urls env urls" s "[]" "[]" s1 removed1 candidates1]
    by (simp add: delete_local_uploads_def)
next
  let ?p = "UPLOADS_DIR env @ [''missing.jpg'']"
  assume a: "order_ok env \<and> contained env s ?p \<and> exists env s ?p = Inr False"
  have st: "strip ''/uploads/missing.jpg'' = uploads_prefix @ ''missing.jpg''" by code_simp
  have pp: "parse_parts (strip_slashes ''missing.jpg'') = [''missing.jpg'']" by code_simp
  from a have r: "local_upload_path_from_url env s (Str ''/uploads/missing.jpg'') = Inr (Some ?p)"
    by (simp add: resolver_relative_form [OF st] pp)
  have ne: "strip ''/uploads/missing.jpg'' \<noteq> []" by code_simp
  from a have ok: "order_ok env" by simp
  from a r show "delete_local_uploads env s [Str ''/uploads/missing.jpg'']
             = Inr (s, [], [str_path ?p])"
    by (simp add: delete_single [OF ok ne] process_url_def)
qed

theorem candidates_regardless_of_existence_witness:
  "local_upload_path_from_url (plain_env srv_root) fs_two (Str ''/uploads/missing.jpg'')
     = Inr (Some [''srv'', ''data'', ''uploads'', ''missing.jpg''])
   \<and> exists (plain_env srv_root) fs_two [''srv'', ''data'', ''uploads'', ''missing.jpg'']
       = Inr False
   \<and> (\<exists>s' removed'. process_url (plain_env srv_root) ''/uploads/missing.jpg'' (fs_two, [], [])
         = Inr (s', removed', [] @ [str_path [''srv'', ''data'', ''uploads'', ''missing.jpg'']]))
   \<and> delete_local_uploads (plain_env srv_root) fs_two
        [Str ''/uploads/missing.jpg'', Str ''/uploads/a.jpg'']
       = Inr (\<lparr>files = [[''srv'', ''data'', ''uploads'', ''b.png''], [''srv'', ''data'', ''secret.txt'']],
                dirs = [[], [''srv''], [''srv'', ''data''], [''srv'', ''data'', ''uploads'']]\<rparr>,
              [''/srv/data/uploads/a.jpg''],
              [''/srv/data/uploads/missing.jpg'', ''/srv/data/uploads/a.jpg''])
   \<and> [''/srv/data/uploads/missing.jpg'', ''/srv/data/uploads/a.jpg'']
       = concat (map (candidate_of (plain_env srv_root) fs_two)
           (unique_urls (plain_env srv_root) [Str ''/uploads/missing.jpg'', Str ''/uploads/a.jpg'']))
   \<and> delete_local_uploads (plain_env srv_root) fs_two [Str ''/uploads/missing.jpg'']
       = Inr (fs_two, [], [str_path (UPLOADS_DIR (plain_env srv_root) @ [''missing.jpg''])])"
proof -
  let ?E = "plain_env srv_root"
  let ?S = "\<lparr>files = [[''srv'', ''data'', ''uploads'', ''b.png''], [''srv'', ''data'', ''secret.txt'']],
             dirs = [[], [''srv''], [''srv'', ''data''], [''srv'', ''data'', ''uploads'']]\<rparr>"
  note inst = candidates_regardless_of_existence
    [of ?E fs_two "''/uploads/missing.jpg''" "[''srv'', ''data'', ''uploads'', ''missing.jpg'']"
        "[]" "[]" "[Str ''/uploads/missing.jpg'', Str ''/uploads/a.jpg'']" ?S
        "[''/srv/data/uploads/a.jpg'']"
        "[''/srv/data/uploads/missing.jpg'', ''/srv/data/uploads/a.jpg'']"]
  have h1: "local_upload_path_from_url ?E fs_two (Str ''/uploads/missing.jpg'')
     = Inr (Some [''srv'', ''data'', ''uploads'', ''missing.jpg''])"
    by code_simp
  have h2: "exists ?E fs_two [''srv'', ''data'', ''uploads'', ''missing.jpg''] = Inr False"
    by code_simp
  have h3: "delete_local_uploads ?E fs_two [Str ''/uploads/missing.jpg'', Str ''/uploads/a.jpg'']
       = Inr (?S, [''/srv/data/uploads/a.jpg''],
              [''/srv/data/uploads/missing.jpg'', ''/srv/data/uploads/a.jpg''])"
    by code_simp
  have h4: "contained ?E fs_two (UPLOADS_DIR ?E @ [''missing.jpg''])
      \<and> exists ?E fs_two (UPLOADS_DIR ?E @ [''missing.jpg'']) = Inr False"
    by code_simp
  from inst h1 h2 h3 h4 plain_order_ok [of srv_root] plain_resolve_stable [of srv_root]
  show ?thesis by blast
qed

subsection \<open>C1: resolved paths lie inside the uploads root\<close>

text \<open>
  With a symbolic link \<open>/srv/data/link\<close> that points to \<open>/srv/data/uploads/a.jpg\<close>, the
  URL \<open>/uploads/../link\<close> gives the path \<open>/srv/data/uploads/../link\<close>. Its canonical
  form is the file in the uploads directory, so the guard accepts it, and \<open>unlink\<close>
  removes the link, an entry of \<open>/srv/data\<close>.
\<close>

theorem link_outside_root_is_unlinked:
  "delete_local_uploads (link_env srv_root) fs_link [Str ''/uploads/../link'']
     = Inr (\<lparr>reg_files = [[''srv'', ''data'', ''uploads'', ''a.jpg'']],
              directories = [[], [''srv''], [''srv'', ''data''], [''srv'', ''data'', ''uploads'']],
              symlinks = []\<rparr>,
            [''/srv/data/uploads/../link''], [''/srv/data/uploads/../link''])
   \<and> \<not> prefix srv_root [''srv'', ''data'', ''link'']
   \<and> map_of (symlinks fs_link) [''srv'', ''data'', ''link'']
       = Some [''srv'', ''data'', ''uploads'', ''a.jpg'']
   \<and> exists (link_env srv_root) fs_link [''srv'', ''data'', ''link''] = Inr True
   \<and> exists (link_env srv_root)
        \<lparr>reg_files = [[''srv'', ''data'', ''uploads'', ''a.jpg'']],
         directories = [[], [''srv''], [''srv'', ''data''], [''srv'', ''data'', ''uploads'']],
         symlinks = []\<rparr>
        [''srv'', ''data'', ''link''] = Inr False"
  by code_simp

text \<open>
  C1. Whenever \<open>local_upload_path_from_url\<close> returns a path, the canonical form of
  that path is equal to or a descendant of the canonical form of \<open>UPLOADS_DIR\<close>. A
  failure of either canonicalisation makes the guard answer \<open>False\<close>. An input of
  the relative or of the absolute form whose joined candidate is not contained resolves
  to \<open>None\<close>. Consequently a batch only unlinks paths that exist and whose canonical
  form is inside the root when they are unlinked: the filesystem after
  \<open>delete_local_uploads\<close> is reached from the one before it by such unlinks alone.
  Where unlinking leaves canonicalisation as it is and changes the existence only of
  paths with the canonical form of the path unlinked (a filesystem without symbolic
  links), every path that is not contained in the root exists after the batch exactly
  if it existed before: no file outside the root is deleted.
\<close>

theorem resolved_path_inside_uploads_root:
  "(local_upload_path_from_url env s url = Inr (Some p) \<longrightarrow>
      (\<exists>cp cr. resolve env s p = Inr cp \<and> resolve env s (UPLOADS_DIR env) = Inr cr
                \<and> prefix cr cp))
   \<and> ((\<exists>e. resolve env s q = Inl e) \<or> (\<exists>e. resolve env s parent = Inl e) \<longrightarrow>
        is_subpath env s q parent = Inr False)
   \<and> (url_s \<noteq> [] \<and> startswith (strip url_s) uploads_prefix
        \<and> \<not> contained env s (joined_candidate env (strip url_s)) \<longrightarrow>
        local_upload_path_from_url env s (Str url_s) = Inr None)
   \<and> (\<not> startswith (strip url_a) uploads_prefix
        \<and> urlparse_path env (strip url_a) = Inr pth
        \<and> \<not> contained env s (joined_candidate env (replace_char backslash CHR ''/'' pth)) \<longrightarrow>
        local_upload_path_from_url env s (Str url_a) = Inr None)
   \<and> (delete_local_uploads env s urls = Inr (s', removed, candidates) \<longrightarrow>
        guarded_unlinks env s s')
   \<and> (resolve_stable env \<and> unlink_canonical env
        \<and> delete_local_uploads env s urls = Inr (s', removed, candidates)
        \<and> \<not> contained env s outside \<longrightarrow>
        exists env s' outside = exists env s outside)"
proof (intro conjI impI)
  assume "local_upload_path_from_url env s url = Inr (Some p)"
  then have "contained env s p" by (rule resolver_some_contained)
  then show "\<exists>cp cr. resolve env s p = Inr cp \<and> resolve env s (UPLOADS_DIR env) = Inr cr
                \<and> prefix cr cp"
    by (simp add: contained_iff)
next
  assume "(\<exists>e. resolve env s q = Inl e) \<or> (\<exists>e. resolve env s parent = Inl e)"
  then show "is_subpath env s q parent = Inr False" by (rule is_subpath_fail_closed)
next
  assume "url_s \<noteq> [] \<and> startswith (strip url_s) uploads_prefix
        \<and> \<not> contained env s (joined_candidate env (strip url_s))"
  then show "local_upload_path_from_url env s (Str url_s) = Inr None"
    by (simp add: resolver_relative_branch guarded_join_eq)
next
  assume a: "\<not> startswith (strip url_a) uploads_prefix
        \<and> urlparse_path env (strip url_a) = Inr pth
        \<and> \<not> contained env s (joined_candidate env (replace_char backslash CHR ''/'' pth))"
  show "local_upload_path_from_url env s (Str url_a) = Inr None"
  proof (cases "url_a = []")
    case True
    then show ?thesis by (simp add: local_upload_path_from_url_def)
  next
    case False
    from a have "parse_branch env s (strip url_a) = Inr None"
      by (simp add: parse_branch_def guarded_join_eq Let_def)
    with resolver_parse_branch [of url_a env s] False a show ?thesis by simp
  qed
next
  assume "delete_local_uploads env s urls = Inr (s', removed, candidates)"
  then show "guarded_unlinks env s s'"
    unfolding delete_local_uploads_def by (rule delete_loop_guarded)
next
  assume a: "resolve_stable env \<and> unlink_canonical env
        \<and> delete_local_uploads env s urls = Inr (s', removed, candidates)
        \<and> \<not> contained env s outside"
  then have "guarded_unlinks env s s'"
    unfolding delete_local_uploads_def by (intro delete_loop_guarded) auto
  with a show "exists env s' outside = exists env s outside"
    by (intro guarded_unlinks_outside) auto
qed

theorem resolved_path_inside_uploads_root_witness:
  "local_upload_path_from_url (plain_env srv_root) fs_two (Str ''/uploads/a.jpg'')
     = Inr (Some [''srv'', ''data'', ''uploads'', ''a.jpg''])
   \<and> (\<exists>cp cr. resolve (plain_env srv_root) fs_two [''srv'', ''data'', ''uploads'', ''a.jpg''] = Inr cp
         \<and> resolve (plain_env srv_root) fs_two (UPLOADS_DIR (plain_env srv_root)) = Inr cr
         \<and> prefix cr cp)
   \<and> resolve (plain_env srv_root) fs_two [''srv'', [CHR 0x00]] = Inl ValueError
   \<and> is_subpath (plain_env srv_root) fs_two [''srv'', [CHR 0x00]] srv_root = Inr False
   \<and> local_upload_path_from_url (plain_env srv_root) fs_two (Str ''/uploads/../secret.txt'')
       = Inr None
   \<and> local_upload_path_from_url (plain_env srv_root) fs_two
        (Str ''http://host/uploads/../../../etc/passwd'') = Inr None
   \<and> delete_local_uploads (plain_env srv_root) fs_two
        [Str ''/uploads/a.jpg'', Str ''/uploads/../secret.txt'']
      = Inr (\<lparr>files = [[''srv'', ''data'', ''uploads'', ''b.png''], [''srv'', ''data'', ''secret.txt'']],
               dirs = [[], [''srv''], [''srv'', ''data''], [''srv'', ''data'', ''uploads'']]\<rparr>,
             [''/srv/data/uploads/a.jpg''], [''/srv/data/uploads/a.jpg''])
   \<and> guarded_unlinks (plain_env srv_root) fs_two
        \<lparr>files = [[''srv'', ''data'', ''uploads'', ''b.png''], [''srv'', ''data'', ''secret.txt'']],
         dirs = [[], [''srv''], [''srv'', ''data''], [''srv'', ''data'', ''uploads'']]\<rparr>
   \<and> \<not> contained (plain_env srv_root) fs_two [''srv'', ''data'', ''secret.txt'']
   \<and> exists (plain_env srv_root) fs_two [''srv'', ''data'', ''secret.txt''] = Inr True
   \<and> exists (plain_env srv_root)
        \<lparr>files = [[''srv'', ''data'', ''uploads'', ''b.png''], [''srv'', ''data'', ''secret.txt'']],
         dirs = [[], [''srv''], [''srv'', ''data''], [''srv'', ''data'', ''uploads'']]\<rparr>
        [''srv'', ''data'', ''secret.txt'']
      = exists (plain_env srv_root) fs_two [''srv'', ''data'', ''secret.txt'']"
proof -
  let ?E = "plain_env srv_root"
  let ?P = "[''srv'', ''data'', ''uploads'', ''a.jpg'']"
  let ?S = "\<lparr>files = [[''srv'', ''data'', ''uploads'', ''b.png''], [''srv'', ''data'', ''secret.txt'']],
         dirs = [[], [''srv''], [''srv'', ''data''], [''srv'', ''data'', ''uploads'']]\<rparr>"
  note inst = resolved_path_inside_uploads_root
    [of ?E fs_two "Str ''/uploads/a.jpg''" ?P "[''srv'', [CHR 0x00]]" srv_root
        "''/uploads/../secret.txt''" "''http://host/uploads/../../../etc/passwd''"
        "''/uploads/../../../etc/passwd''"
        "[Str ''/uploads/a.jpg'', Str ''/uploads/../secret.txt'']"
        ?S "[''/srv/data/uploads/a.jpg'']" "[''/srv/data/uploads/a.jpg'']"
        "[''srv'', ''data'', ''secret.txt'']"]
  have h1: "local_upload_path_from_url ?E fs_two (Str ''/uploads/a.jpg'') = Inr (Some ?P)"
    by code_simp
  have h2: "resolve ?E fs_two [''srv'', [CHR 0x00]] = Inl ValueError"
    by code_simp
  have h3: "''/uploads/../secret.txt'' \<noteq> []
      \<and> startswith (strip ''/uploads/../secret.txt'') uploads_prefix
      \<and> \<not> contained ?E fs_two (joined_candidate ?E (strip ''/uploads/../secret.txt''))"
    by code_simp
  have h4: "\<not> startswith (strip ''http://host/uploads/../../../etc/passwd'') uploads_prefix
      \<and> urlparse_path ?E (strip ''http://host/uploads/../../../etc/passwd'')
          = Inr ''/uploads/../../../etc/passwd''
      \<and> \<not> contained ?E fs_two
            (joined_candidate ?E (replace_char backslash CHR ''/'' ''/uploads/../../../etc/passwd''))"
    by code_simp
  have h5: "delete_local_uploads ?E fs_two [Str ''/uploads/a.jpg'', Str ''/uploads/../secret.txt'']
      = Inr (?S, [''/srv/data/uploads/a.jpg''], [''/srv/data/uploads/a.jpg''])"
    by code_simp
  have h6: "\<not> contained ?E fs_two [''srv'', ''data'', ''secret.txt'']"
    by code_simp
  have h7: "exists ?E fs_two [''srv'', ''data'', ''secret.txt''] = Inr True"
    by code_simp
  note h8 = plain_resolve_stable [of srv_root] plain_unlink_canonical [of srv_root]
  from inst h1 h2 h3 h4 h5 h6 h7 h8 show ?thesis by blast
qed

subsection \<open>C3: no exception escapes\<close>

text \<open>
  C3. Both public operations always return. \<open>local_upload_path_from_url\<close> returns a
  result for every input; it is \<open>None\<close> for the empty string, for a value that is
  not a string, for text on which \<open>urlparse\<close> raises, and for a URL (a \<open>data:\<close>
  URI, an external address) whose parsed path does not start with \<open>/uploads/\<close>.
  \<open>delete_local_uploads\<close> returns its pair of lists for every input list. When
  \<open>exists\<close> or \<open>unlink\<close> raises for a resolved path, the pass of the loop ends
  normally with the path appended to \<open>candidates\<close> only, and the filesystem and
  \<open>removed\<close> as they were. The batch continues: when such a failure happens at the
  URL \<open>v\<close> of the iteration, after the URLs \<open>us1\<close> and before the URLs \<open>us2\<close>, the
  call returns what the loop over \<open>us2\<close> returns from the filesystem and \<open>removed\<close>
  left by \<open>us1\<close> and from the candidates of \<open>us1\<close> with the failed path appended;
  the returned lists begin with those lists.
\<close>

theorem no_exception_escapes:
  "(\<exists>r. local_upload_path_from_url env s url = Inr r)
   \<and> local_upload_path_from_url env s (Str []) = Inr None
   \<and> local_upload_path_from_url env s (NonStr t) = Inr None
   \<and> (\<not> startswith (strip url_s) uploads_prefix \<and> (\<exists>e. urlparse_path env (strip url_s) = Inl e)
        \<longrightarrow> local_upload_path_from_url env s (Str url_s) = Inr None)
   \<and> (\<not> startswith (strip url_a) uploads_prefix \<and> urlparse_path env (strip url_a) = Inr pth
        \<and> \<not> startswith (replace_char backslash CHR ''/'' pth) uploads_prefix
        \<longrightarrow> local_upload_path_from_url env s (Str url_a) = Inr None)
   \<and> (\<exists>s' removed candidates. delete_local_uploads env s urls = Inr (s', removed, candidates))
   \<and> (local_upload_path_from_url env s (Str u) = Inr (Some p)
        \<and> ((\<exists>e. exists env s p = Inl e)
             \<or> (exists env s p = Inr True \<and> (\<exists>e. unlink env s p = Inl e)))
        \<longrightarrow> process_url env u (s, removed0, candidates0)
              = Inr (s, removed0, candidates0 @ [str_path p]))
   \<and> (unique_urls env urls = us1 @ v # us2
        \<and> delete_loop env us1 (s, [], []) = Inr (s1, removed1, candidates1)
        \<and> local_upload_path_from_url env s1 (Str v) = Inr (Some q)
        \<and> ((\<exists>e. exists env s1 q = Inl e)
             \<or> (exists env s1 q = Inr True \<and> (\<exists>e. unlink env s1 q = Inl e)))
        \<longrightarrow> (\<exists>s2 removed2 candidates2.
               delete_local_uploads env s urls = Inr (s2, removed2, candidates2)
               \<and> delete_loop env us2 (s1, removed1, candidates1 @ [str_path q])
                   = Inr (s2, removed2, candidates2)
               \<and> prefix removed1 removed2
               \<and> prefix (candidates1 @ [str_path q]) candidates2))"
proof (intro conjI impI)
  show "\<exists>r. local_upload_path_from_url env s url = Inr r" by (rule resolver_total)
next
  show "local_upload_path_from_url env s (Str []) = Inr None"
    by (simp add: local_upload_path_from_url_def)
next
  show "local_upload_path_from_url env s (NonStr t) = Inr None"
    by (simp add: local_upload_path_from_url_def)
next
  assume "\<not> startswith (strip url_s) uploads_prefix \<and> (\<exists>e. urlparse_path env (strip url_s) = Inl e)"
  then show "local_upload_path_from_url env s (Str url_s) = Inr None"
    by (intro resolver_not_uploads) auto
next
  assume "\<not> startswith (strip url_a) uploads_prefix \<and> urlparse_path env (strip url_a) = Inr pth
        \<and> \<not> startswith (replace_char backslash CHR ''/'' pth) uploads_prefix"
  then show "local_upload_path_from_url env s (Str url_a) = Inr None"
    by (intro resolver_not_uploads) auto
next
  obtain st where "delete_loop env (unique_urls env urls) (s, [], []) = Inr st"
    using delete_loop_total [of env "unique_urls env urls" "(s, [], [])"] by blast
  then show "\<exists>s' removed candidates. delete_local_uploads env s urls = Inr (s', removed, candidates)"
    by (cases st) (simp add: delete_local_uploads_def)
next
  assume "local_upload_path_from_url env s (Str u) = Inr (Some p)
        \<and> ((\<exists>e. exists env s p = Inl e)
             \<or> (exists env s p = Inr True \<and> (\<exists>e. unlink env s p = Inl e)))"
  then show "process_url env u (s, removed0, candidates0)
              = Inr (s, removed0, candidates0 @ [str_path p])"
    by (intro process_url_absorbs) auto
next
  assume "unique_urls env urls = us1 @ v # us2
        \<and> delete_loop env us1 (s, [], []) = Inr (s1, removed1, candidates1)
        \<and> local_upload_path_from_url env s1 (Str v) = Inr (Some q)
        \<and> ((\<exists>e. exists env s1 q = Inl e)
             \<or> (exists env s1 q = Inr True \<and> (\<exists>e. unlink env s1 q = Inl e)))"
  then show "\<exists>s2 removed2 candidates2.
               delete_local_uploads env s urls = Inr (s2, removed2, candidates2)
               \<and> delete_loop env us2 (s1, removed1, candidates1 @ [str_path q])
                   = Inr (s2, removed2, candidates2)
               \<and> prefix removed1 removed2
               \<and> prefix (candidates1 @ [str_path q]) candidates2"
    by (intro delete_loop_failed_pass) auto
qed

theorem no_exception_escapes_witness:
  "urlparse_path (plain_env srv_root) (strip ''http://[::1/uploads/x.png'') = Inl ValueError
   \<and> local_upload_path_from_url (plain_env srv_root) fs_two (Str ''http://[::1/uploads/x.png'')
       = Inr None
   \<and> urlparse_path (plain_env srv_root) (strip ''data:image/png;base64,xx'')
       = Inr ''image/png;base64,xx''
   \<and> local_upload_path_from_url (plain_env srv_root) fs_two (Str ''data:image/png;base64,xx'')
       = Inr None
   \<and> local_upload_path_from_url (plain_env srv_root) fs_two (Str ''/uploads/'')
       = Inr (Some srv_root)
   \<and> exists (plain_env srv_root) fs_two srv_root = Inr True
   \<and> unlink (plain_env srv_root) fs_two srv_root = Inl OSError
   \<and> process_url (plain_env srv_root) ''/uploads/'' (fs_two, [], [])
       = Inr (fs_two, [], [] @ [str_path srv_root])
   \<and> unique_urls (plain_env srv_root)
        [Str ''/uploads/a.jpg'', NonStr False, Str ''/uploads/'', Str ''/uploads/b.png'']
       = [''/uploads/a.jpg''] @ ''/uploads/'' # [''/uploads/b.png'']
   \<and> delete_local_uploads (plain_env srv_root) fs_two
        [Str ''/uploads/a.jpg'', NonStr False, Str ''/uploads/'', Str ''/uploads/b.png'']
       = Inr (\<lparr>files = [[''srv'', ''data'', ''secret.txt'']],
                dirs = [[], [''srv''], [''srv'', ''data''], [''srv'', ''data'', ''uploads'']]\<rparr>,
              [''/srv/data/uploads/a.jpg'', ''/srv/data/uploads/b.png''],
              [''/srv/data/uploads/a.jpg'', ''/srv/data/uploads'', ''/srv/data/uploads/b.png''])
   \<and> (\<exists>s2 removed2 candidates2.
         delete_local_uploads (plain_env srv_root) fs_two
           [Str ''/uploads/a.jpg'', NonStr False, Str ''/uploads/'', Str ''/uploads/b.png'']
          = Inr (s2, removed2, candidates2)
         \<and> delete_loop (plain_env srv_root) [''/uploads/b.png'']
             (\<lparr>files = [[''srv'', ''data'', ''uploads'', ''b.png''], [''srv'', ''data'', ''secret.txt'']],
               dirs = [[], [''srv''], [''srv'', ''data''], [''srv'', ''data'', ''uploads'']]\<rparr>,
              [''/srv/data/uploads/a.jpg''], [''/srv/data/uploads/a.jpg''] @ [str_path srv_root])
            = Inr (s2, removed2, candidates2)
         \<and> prefix [''/srv/data/uploads/a.jpg''] removed2
         \<and> prefix ([''/srv/data/uploads/a.jpg''] @ [str_path srv_root]) candidates2)"
proof -
  let ?E = "plain_env srv_root"
  let ?U = "[Str ''/uploads/a.jpg'', NonStr False, Str ''/uploads/'', Str ''/uploads/b.png'']"
  let ?S1 = "\<lparr>files = [[''srv'', ''data'', ''uploads'', ''b.png''], [''srv'', ''data'', ''secret.txt'']],
         dirs = [[], [''srv''], [''srv'', ''data''], [''srv'', ''data'', ''uploads'']]\<rparr>"
  note inst = no_exception_escapes
    [where env = ?E and s = fs_two and url = "Str ''/uploads/''" and t = True
       and url_s = "''http://[::1/uploads/x.png''"
       and url_a = "''data:image/png;base64,xx''" and pth = "''image/png;base64,xx''"
       and urls = ?U and u = "''/uploads/''" and p = srv_root
       and ?removed0.0 = "[]" and ?candidates0.0 = "[]"
       and ?us1.0 = "[''/uploads/a.jpg'']" and v = "''/uploads/''"
       and ?us2.0 = "[''/uploads/b.png'']" and ?s1.0 = ?S1
       and ?removed1.0 = "[''/srv/data/uploads/a.jpg'']"
       and ?candidates1.0 = "[''/srv/data/uploads/a.jpg'']" and q = srv_root]
  have h1: "\<not> startswith (strip ''http://[::1/uploads/x.png'') uploads_prefix
      \<and> urlparse_path ?E (strip ''http://[::1/uploads/x.png'') = Inl ValueError"
    by code_simp
  have h2: "\<not> startswith (strip ''data:image/png;base64,xx'') uploads_prefix
      \<and> urlparse_path ?E (strip ''data:image/png;base64,xx'') = Inr ''image/png;base64,xx''
      \<and> \<not> startswith (replace_char backslash CHR ''/'' ''image/png;base64,xx'') uploads_prefix"
    by code_simp
  have h3: "local_upload_path_from_url ?E fs_two (Str ''/uploads/'') = Inr (Some srv_root)"
    by code_simp
  have h4: "exists ?E fs_two srv_root = Inr True \<and> unlink ?E fs_two srv_root = Inl OSError"
    by code_simp
  have h5: "unique_urls ?E ?U = [''/uploads/a.jpg''] @ ''/uploads/'' # [''/uploads/b.png'']"
    by code_simp
  have h6: "delete_loop ?E [''/uploads/a.jpg''] (fs_two, [], [])
      = Inr (?S1, [''/srv/data/uploads/a.jpg''], [''/srv/data/uploads/a.jpg''])"
    by code_simp
  have h7: "local_upload_path_from_url ?E ?S1 (Str ''/uploads/'') = Inr (Some srv_root)"
    by code_simp
  have h8: "exists ?E ?S1 srv_root = Inr True \<and> unlink ?E ?S1 srv_root = Inl OSError"
    by code_simp
  have h9: "delete_local_uploads ?E fs_two ?U
       = Inr (\<lparr>files = [[''srv'', ''data'', ''secret.txt'']],
                dirs = [[], [''srv''], [''srv'', ''data''], [''srv'', ''data'', ''uploads'']]\<rparr>,
              [''/srv/data/uploads/a.jpg'', ''/srv/data/uploads/b.png''],
              [''/srv/data/uploads/a.jpg'', ''/srv/data/uploads'', ''/srv/data/uploads/b.png''])"
    by code_simp
  from inst h1 h2 h3 h4 h5 h6 h7 h8 h9 show ?thesis by blast
qed

subsection \<open>C4: a second call removes nothing and reports the same candidates\<close>

text \<open>
  With a symbolic link \<open>L\<close> in the uploads directory that points to the directory
  \<open>sub/deep\<close> in it, the URL \<open>/uploads/L/../../L\<close> is accepted by the first call, which
  unlinks the link. For the second call the same path canonicalises to \<open>/srv/data/L\<close>,
  the guard rejects it, and \<open>candidates\<close> is empty.
\<close>

theorem second_call_drops_candidate:
  "delete_local_uploads (link_env srv_root) fs_deep [Str ''/uploads/L/../../L'']
     = Inr (\<lparr>reg_files = [],
              directories = [[], [''srv''], [''srv'', ''data''], [''srv'', ''data'', ''uploads''],
                             [''srv'', ''data'', ''uploads'', ''sub''],
                             [''srv'', ''data'', ''uploads'', ''sub'', ''deep'']],
              symlinks = []\<rparr>,
            [''/srv/data/uploads/L/../../L''], [''/srv/data/uploads/L/../../L''])
   \<and> delete_local_uploads (link_env srv_root)
        \<lparr>reg_files = [],
         directories = [[], [''srv''], [''srv'', ''data''], [''srv'', ''data'', ''uploads''],
                        [''srv'', ''data'', ''uploads'', ''sub''],
                        [''srv'', ''data'', ''uploads'', ''sub'', ''deep'']],
         symlinks = []\<rparr>
        [Str ''/uploads/L/../../L'']
     = Inr (\<lparr>reg_files = [],
              directories = [[], [''srv''], [''srv'', ''data''], [''srv'', ''data'', ''uploads''],
                             [''srv'', ''data'', ''uploads'', ''sub''],
                             [''srv'', ''data'', ''uploads'', ''sub'', ''deep'']],
              symlinks = []\<rparr>,
            [], [])
   \<and> [''/srv/data/uploads/L/../../L''] \<noteq> ([] :: string list)"
  by code_simp

text \<open>
  C4. Idempotence, where unlinking leaves canonicalisation as it is (no symbolic link is
  unlinked). When a call on a list of URLs has returned, a second call on the same list,
  made in the filesystem the first call left behind, leaves that filesystem as it is,
  returns an empty \<open>removed\<close> and returns the same \<open>candidates\<close> as the first call.
  Nobody else changes the filesystem between and during the calls, so that \<open>unlink\<close> has
  its plain effect: the unlinked path no longer exists, no path comes into existence, and
  an unlink that failed keeps failing.
\<close>

theorem second_call_removes_nothing:
  assumes "resolve_stable env" and "unlink_removes env"
    and "unlink_creates_nothing env" and "unlink_failure_persists env"
    and "delete_local_uploads env s urls = Inr (s1, removed1, candidates1)"
  shows "delete_local_uploads env s1 urls = Inr (s1, [], candidates1)"
proof -
  let ?us = "unique_urls env urls"
  from assms(5) have run: "delete_loop env ?us (s, [], []) = Inr (s1, removed1, candidates1)"
    by (simp add: delete_local_uploads_def)
  from guarded_unlinks_resolve [OF assms(1) delete_loop_guarded [OF run]]
  have same: "resolve env s1 = resolve env s" .
  have c1: "candidates1 = concat (map (candidate_of env s) ?us)"
    using delete_loop_candidates [OF assms(1) run] by simp
  have idle: "\<not> deletable env s1 p"
    if "u \<in> set ?us" and "local_upload_path_from_url env s1 (Str u) = Inr (Some p)" for u p
  proof -
    from that(2) have "local_upload_path_from_url env s (Str u) = Inr (Some p)"
      by (simp add: resolver_resolve_cong [OF same])
    from delete_loop_leaves_nothing_deletable [OF assms(1-4) run that(1) this]
    show ?thesis .
  qed
  have "delete_loop env ?us (s1, [], [])
      = Inr (s1, [], [] @ concat (map (candidate_of env s1) ?us))"
    by (rule delete_loop_idle) (rule idle)
  moreover have "map (candidate_of env s1) ?us = map (candidate_of env s) ?us"
    by (simp add: candidate_of_cong [OF same])
  ultimately show ?thesis by (simp add: delete_local_uploads_def c1)
qed

theorem second_call_removes_nothing_witness:
  "delete_local_uploads (plain_env srv_root) fs_two
     [Str ''/uploads/a.jpg'', Str ''http://host/uploads/b.png'', Str ''/uploads/'',
      Str ''/uploads/missing.jpg'', Str ''https://external.com/c.jpg'']
   = Inr (\<lparr>files = [[''srv'', ''data'', ''secret.txt'']],
            dirs = [[], [''srv''], [''srv'', ''data''], [''srv'', ''data'', ''uploads'']]\<rparr>,
          [''/srv/data/uploads/a.jpg'', ''/srv/data/uploads/b.png''],
          [''/srv/data/uploads/a.jpg'', ''/srv/data/uploads/b.png'', ''/srv/data/uploads'',
           ''/srv/data/uploads/missing.jpg''])
   \<and> delete_local_uploads (plain_env srv_root)
        \<lparr>files = [[''srv'', ''data'', ''secret.txt'']],
         dirs = [[], [''srv''], [''srv'', ''data''], [''srv'', ''data'', ''uploads'']]\<rparr>
        [Str ''/uploads/a.jpg'', Str ''http://host/uploads/b.png'', Str ''/uploads/'',
         Str ''/uploads/missing.jpg'', Str ''https://external.com/c.jpg'']
   = Inr (\<lparr>files = [[''srv'', ''data'', ''secret.txt'']],
            dirs = [[], [''srv''], [''srv'', ''data''], [''srv'', ''data'', ''uploads'']]\<rparr>,
          [],
          [''/srv/data/uploads/a.jpg'', ''/srv/data/uploads/b.png'', ''/srv/data/uploads'',
           ''/srv/data/uploads/missing.jpg''])"
proof -
  have run: "delete_local_uploads (plain_env srv_root) fs_two
     [Str ''/uploads/a.jpg'', Str ''http://host/uploads/b.png'', Str ''/uploads/'',
      Str ''/uploads/missing.jpg'', Str ''https://external.com/c.jpg'']
   = Inr (\<lparr>files = [[''srv'', ''data'', ''secret.txt'']],
            dirs = [[], [''srv''], [''srv'', ''data''], [''srv'', ''data'', ''uploads'']]\<rparr>,
          [''/srv/data/uploads/a.jpg'', ''/srv/data/uploads/b.png''],
          [''/srv/data/uploads/a.jpg'', ''/srv/data/uploads/b.png'', ''/srv/data/uploads'',
           ''/srv/data/uploads/missing.jpg''])"
    by code_simp
  from second_call_removes_nothing [OF plain_resolve_stable plain_unlink_removes
      plain_unlink_creates_nothing plain_unlink_failure_persists run] run
  show ?thesis by (rule conjI [rotated])
qed

subsection \<open>C8: each unique URL is processed once\<close>




end
